theory Spec2Isabelle
  imports Main
begin

section \<open>AvicBotChat: the supervisor entrypoint \<open>avicbot.py\<close>\<close>

text \<open>
  The theory embeds the four parts of \<open>avicbot.py\<close>: the \<open>.env\<close> loader
  (\<open>_load_dotenv\<close>), the child spawner (\<open>_spawn\<close>), the best-effort termination
  (\<open>_terminate\<close>) and the supervisor (\<open>main\<close>). Everything the program asks of the
  outside world (the file system, the children, the signals) is an input of the model:
  each operation has an outcome, a returned value or a raised exception, and the model
  follows the source's control flow on it.
\<close>

subsection \<open>Exceptions\<close>

text \<open>
  The exceptions that occur in a run. \<open>KeyboardInterrupt\<close> and \<open>SystemExit\<close> derive
  from \<open>BaseException\<close> only; all the others derive from \<open>Exception\<close>, which is what
  the handlers \<open>except Exception\<close> of the source catch.
\<close>

datatype py_exn =
    KeyboardInterrupt
  | SystemExit int
  | FileNotFoundError
  | OSError
  | UnicodeDecodeError
  | UnicodeEncodeError
  | ValueError
  | TimeoutExpired

fun is_Exception :: "py_exn \<Rightarrow> bool" where
  "is_Exception KeyboardInterrupt = False"
| "is_Exception (SystemExit _) = False"
| "is_Exception _ = True"

subsection \<open>Python strings\<close>

text \<open>
  A Python \<open>str\<close> is a sequence of Unicode code points; a code point is a natural
  number here, so that \<open>str.strip\<close> and \<open>str.splitlines\<close> see the characters
  Python sees. \<open>str\<close> turns an ASCII literal into such a string.
\<close>

type_synonym pystr = "nat list"

definition str :: "string \<Rightarrow> pystr" where
  "str s = map of_char s"

text \<open>The characters the source names: \<open>#\<close>, \<open>=\<close>, the two quotes, and NUL.\<close>

definition HASH :: nat where "HASH = 35"
definition EQUALS :: nat where "EQUALS = 61"
definition DQUOTE :: nat where "DQUOTE = 34"
definition SQUOTE :: nat where "SQUOTE = 39"
definition NUL :: nat where "NUL = 0"

text \<open>
  \<open>str.isspace\<close> on one character: the code points CPython's
  \<open>_PyUnicode_IsWhitespace\<close> accepts. \<open>str.strip()\<close> removes them at both ends.
\<close>

definition isspace :: "nat \<Rightarrow> bool" where
  "isspace c \<longleftrightarrow>
     (9 \<le> c \<and> c \<le> 13) \<or> (28 \<le> c \<and> c \<le> 32) \<or> c = 133 \<or> c = 160 \<or> c = 5760 \<or>
     (8192 \<le> c \<and> c \<le> 8202) \<or> c = 8232 \<or> c = 8233 \<or> c = 8239 \<or> c = 8287 \<or> c = 12288"

definition strip :: "pystr \<Rightarrow> pystr" where
  "strip s = rev (dropWhile isspace (rev (dropWhile isspace s)))"

text \<open>
  \<open>str.splitlines()\<close>: the line boundaries of CPython's \<open>_PyUnicode_IsLinebreak\<close>,
  with \<open>\r\n\<close> counted as one boundary and no empty last line after a final boundary.
  The recursion follows CPython's loop: find the end of the line, emit the line, skip
  the boundary.
\<close>

definition is_linebreak :: "nat \<Rightarrow> bool" where
  "is_linebreak c \<longleftrightarrow>
     (10 \<le> c \<and> c \<le> 13) \<or> (28 \<le> c \<and> c \<le> 30) \<or> c = 133 \<or> c = 8232 \<or> c = 8233"

function splitlines :: "pystr \<Rightarrow> pystr list" where
  "splitlines [] = []"
| "splitlines (c # cs) =
     (case dropWhile (\<lambda>x. \<not> is_linebreak x) (c # cs) of
        [] \<Rightarrow> [c # cs]
      | b # r \<Rightarrow>
          takeWhile (\<lambda>x. \<not> is_linebreak x) (c # cs) #
          splitlines (case r of
                        [] \<Rightarrow> []
                      | d # r' \<Rightarrow> if b = 13 \<and> d = 10 then r' else d # r'))"
  by pat_completeness auto

termination splitlines
proof (relation "measure length", goal_cases)
  case 1
  show ?case by simp
next
  case (2 c cs b r)
  have "length (dropWhile (\<lambda>x. \<not> is_linebreak x) (c # cs)) \<le> length (c # cs)"
    by (rule length_dropWhile_le)
  with 2 have "length r \<le> length cs"
    by simp
  then have "length (case r of [] \<Rightarrow> [] | d # r' \<Rightarrow> if b = 13 \<and> d = 10 then r' else d # r')
             < Suc (length cs)"
    by (cases r) (auto split: if_splits)
  then show ?case
    by (simp only: in_measure length_Cons)
qed

subsection \<open>The environment loader\<close>

text \<open>
  \<open>os.environ\<close> keeps a dictionary from the names to the values, both in the form
  in which they are stored: \<open>encodekey\<close> of the name and \<open>encodevalue\<close> of the value.
  The environment of the model is that dictionary. The path given to the loader is
  missing, or is not a regular file, or is a regular file, whose
  \<open>read_text(encoding="utf-8")\<close> returns the decoded text or raises (\<open>OSError\<close>
  when unreadable, \<open>UnicodeDecodeError\<close> when not UTF-8).
\<close>

type_synonym environ = "pystr \<rightharpoonup> pystr"

datatype path_entry =
    Missing
  | NotRegularFile
  | RegularFile "py_exn + pystr"

text \<open>
  Lines 39 to 53 of the source, the body of the loop before the store: \<open>None\<close> is a
  \<open>continue\<close>, \<open>Some (key, val)\<close> the pair given to \<open>os.environ.setdefault\<close>.
  \<open>line.split("=", 1)\<close> cuts at the first \<open>=\<close>.
\<close>

definition unquote :: "pystr \<Rightarrow> pystr" where
  "unquote val =
     (if length val \<ge> 2 \<and> hd val = last val \<and> (hd val = DQUOTE \<or> hd val = SQUOTE)
      then butlast (tl val) else val)"

definition parse_line :: "pystr \<Rightarrow> (pystr \<times> pystr) option" where
  "parse_line raw =
     (let line = strip raw in
      if line = [] \<or> hd line = HASH then None
      else if EQUALS \<notin> set line then None
      else
        let key = strip (takeWhile (\<lambda>c. c \<noteq> EQUALS) line);
            val = strip (tl (dropWhile (\<lambda>c. c \<noteq> EQUALS) line))
        in if key = [] then None
           else Some (key, unquote val))"

text \<open>
  What \<open>os.environ\<close> takes from the platform, as \<open>os.py\<close> sets it up:
  \<open>os_nt\<close> is \<open>os.name == "nt"\<close>; \<open>str_upper\<close> is \<open>str.upper\<close>; \<open>fs_encode\<close>
  is \<open>str.encode\<close> with the filesystem encoding and \<open>surrogateescape\<close>, which
  raises \<open>UnicodeEncodeError\<close> on a character the encoding does not have; \<open>putenv\<close>
  is the outcome of \<open>os.putenv\<close> on a stored name and a stored value (it raises
  \<open>ValueError\<close> on an embedded NUL, \<open>OSError\<close> when the system call fails).
\<close>

record platform =
  os_nt :: bool
  str_upper :: "pystr \<Rightarrow> pystr"
  fs_encode :: "pystr \<Rightarrow> py_exn + pystr"
  putenv :: "pystr \<Rightarrow> pystr \<Rightarrow> py_exn + unit"

text \<open>
  \<open>encodekey\<close> and \<open>encodevalue\<close> of \<open>os._createenviron\<close>: on Windows a name is
  stored in upper case and a value as it is; elsewhere both are encoded.
\<close>

definition encodekey :: "'a platform_scheme \<Rightarrow> pystr \<Rightarrow> py_exn + pystr" where
  "encodekey p key = (if os_nt p then Inr (str_upper p key) else fs_encode p key)"

definition encodevalue :: "'a platform_scheme \<Rightarrow> pystr \<Rightarrow> py_exn + pystr" where
  "encodevalue p val = (if os_nt p then Inr val else fs_encode p val)"

text \<open>
  \<open>os.environ.setdefault(key, val)\<close>, line 55: \<open>key not in self\<close> looks the stored
  name up; a name that is present is left alone; otherwise \<open>self[key] = val\<close> encodes
  the value, calls \<open>putenv\<close> and stores the pair. Each of the three steps can raise.
\<close>

definition setdefault ::
  "'a platform_scheme \<Rightarrow> pystr \<Rightarrow> pystr \<Rightarrow> environ \<Rightarrow> (py_exn + unit) \<times> environ" where
  "setdefault p key val env =
     (case encodekey p key of
        Inl e \<Rightarrow> (Inl e, env)
      | Inr k \<Rightarrow>
          (case env k of
             Some _ \<Rightarrow> (Inr (), env)
           | None \<Rightarrow>
               (case encodevalue p val of
                  Inl e \<Rightarrow> (Inl e, env)
                | Inr v \<Rightarrow>
                    (case putenv p k v of
                       Inl e \<Rightarrow> (Inl e, env)
                     | Inr _ \<Rightarrow> (Inr (), env(k \<mapsto> v))))))"

definition load_line ::
  "'a platform_scheme \<Rightarrow> pystr \<Rightarrow> environ \<Rightarrow> (py_exn + unit) \<times> environ" where
  "load_line p raw env =
     (case parse_line raw of
        None \<Rightarrow> (Inr (), env)
      | Some (key, val) \<Rightarrow> setdefault p key val env)"

text \<open>The \<open>for\<close> loop over the lines; an exception ends it, with the environment as it is.\<close>

fun load_lines ::
  "'a platform_scheme \<Rightarrow> pystr list \<Rightarrow> environ \<Rightarrow> (py_exn + unit) \<times> environ" where
  "load_lines p [] env = (Inr (), env)"
| "load_lines p (raw # rest) env =
     (case load_line p raw env of
        (Inl e, env') \<Rightarrow> (Inl e, env')
      | (Inr _, env') \<Rightarrow> load_lines p rest env')"

definition load_dotenv ::
  "'a platform_scheme \<Rightarrow> path_entry \<Rightarrow> environ \<Rightarrow> (py_exn + unit) \<times> environ" where
  "load_dotenv p dotenv_path env =
     (case dotenv_path of
        Missing \<Rightarrow> (Inr (), env)
      | NotRegularFile \<Rightarrow> (Inr (), env)
      | RegularFile (Inl e) \<Rightarrow> (Inl e, env)
      | RegularFile (Inr content) \<Rightarrow> load_lines p (splitlines content) env)"

text \<open>
  A pair can be stored when none of the three steps of the store raises on it.
\<close>

definition storable :: "'a platform_scheme \<Rightarrow> pystr \<Rightarrow> pystr \<Rightarrow> bool" where
  "storable p key val =
     (case encodekey p key of
        Inl _ \<Rightarrow> False
      | Inr k \<Rightarrow>
          (case encodevalue p val of
             Inl _ \<Rightarrow> False
           | Inr v \<Rightarrow> (case putenv p k v of Inl _ \<Rightarrow> False | Inr _ \<Rightarrow> True)))"

text \<open>
  The lines the loader passes over, in the words of its contract: a line that is empty
  after stripping, a line whose first character after the leading whitespace is \<open>#\<close>,
  a line with no \<open>=\<close>, and a line whose text before the first \<open>=\<close> is empty after
  stripping.
\<close>

definition skipped :: "pystr \<Rightarrow> bool" where
  "skipped raw \<longleftrightarrow>
     list_all isspace raw \<or>
     (dropWhile isspace raw \<noteq> [] \<and> hd (dropWhile isspace raw) = HASH) \<or>
     EQUALS \<notin> set raw \<or>
     list_all isspace (takeWhile (\<lambda>c. c \<noteq> EQUALS) raw)"

subsection \<open>The command line\<close>

text \<open>
  The parser of \<open>_build_parser\<close> knows six option strings: the two spellings of each
  child flag, \<open>--version\<close> (line 79) and the \<open>-h\<close>/\<open>--help\<close> that \<open>argparse\<close>
  adds by itself. \<open>argv\<close> is a list of them, in the order given. \<open>parse_args\<close> runs
  the actions from left to right: a child flag stores \<open>True\<close>, \<open>--version\<close> prints the
  version to the standard output and exits with status 0, and so does \<open>--help\<close> with
  the help text.
\<close>

datatype opt = Opt_Twitch | Opt_twitch | Opt_Wikimedia | Opt_wikimedia | Opt_version | Opt_help

record args =
  twitch :: bool
  wikimedia :: bool

datatype stream = Stdout | Stderr

datatype signal = SIGTERM | SIGKILL

datatype script_name = Twitch_py | Avicbotirc_py

text \<open>
  What a run does to the outside world is a list of events, one for each call made, in
  the order of the calls, whether the call then returns or raises: \<open>Popen name s\<close> is
  \<open>subprocess.Popen\<close> on the script with \<open>start_new_session = s\<close>; \<open>Wait pid t\<close> is
  \<open>wait\<close> with timeout \<open>t\<close> (in seconds, \<open>None\<close> for no timeout) on the child
  \<open>pid\<close>; \<open>Poll\<close>, \<open>Terminate\<close> and \<open>Kill\<close> are the methods of the child's
  \<open>Popen\<close> object and \<open>Killpg\<close> is \<open>os.killpg\<close>.
\<close>

datatype event =
    Print_help stream
  | Print_version
  | Popen script_name bool
  | Wait nat "nat option"
  | Poll nat
  | Killpg nat signal
  | Terminate nat
  | Kill nat

fun parse_opts :: "opt list \<Rightarrow> args \<Rightarrow> (py_exn + args) \<times> event list" where
  "parse_opts [] a = (Inr a, [])"
| "parse_opts (Opt_Twitch # rest) a = parse_opts rest (a\<lparr>twitch := True\<rparr>)"
| "parse_opts (Opt_twitch # rest) a = parse_opts rest (a\<lparr>twitch := True\<rparr>)"
| "parse_opts (Opt_Wikimedia # rest) a = parse_opts rest (a\<lparr>wikimedia := True\<rparr>)"
| "parse_opts (Opt_wikimedia # rest) a = parse_opts rest (a\<lparr>wikimedia := True\<rparr>)"
| "parse_opts (Opt_version # rest) a = (Inl (SystemExit 0), [Print_version])"
| "parse_opts (Opt_help # rest) a = (Inl (SystemExit 0), [Print_help Stdout])"

definition parse_args :: "opt list \<Rightarrow> (py_exn + args) \<times> event list" where
  "parse_args argv = parse_opts argv \<lparr>twitch = False, wikimedia = False\<rparr>"

subsection \<open>Children\<close>

text \<open>
  A child is its \<open>Popen\<close> object: the process id, and how the operating system answers
  each operation the supervisor makes on it. \<open>wait_result\<close> is the outcome of
  \<open>p.wait()\<close> (line 141): the exit code, or an exception, \<open>KeyboardInterrupt\<close> when
  the supervisor is interrupted while it waits. The other fields are the outcomes of the
  calls of the interrupt path: \<open>proc.poll()\<close> (line 104), \<open>os.killpg(proc.pid,
  SIGTERM)\<close> (line 112), \<open>proc.terminate()\<close> (line 108), \<open>proc.terminate()\<close> in the
  handler (line 115), \<open>p.wait(timeout=5)\<close> (line 151, \<open>TimeoutExpired\<close> when the child
  is still alive after 5 seconds), and the forced kill, \<open>p.kill()\<close> or
  \<open>os.killpg(p.pid, SIGKILL)\<close> (lines 155 and 157).
\<close>

record popen =
  pid :: nat
  wait_result :: "py_exn + int"
  poll_result :: "py_exn + int option"
  killpg_result :: "py_exn + unit"
  terminate_result :: "py_exn + unit"
  terminate_again_result :: "py_exn + unit"
  wait_timeout_result :: "py_exn + int"
  kill_result :: "py_exn + unit"

text \<open>
  A script of the repository root: whether the file exists, and what
  \<open>subprocess.Popen\<close> on it does, return the child or raise.
\<close>

record script_file =
  script_exists :: bool
  popen_result :: "py_exn + popen"

text \<open>\<open>_spawn\<close>, lines 83 to 98. \<open>nt\<close> is \<open>os.name == "nt"\<close>.\<close>

definition spawn :: "bool \<Rightarrow> script_name \<Rightarrow> script_file \<Rightarrow> (py_exn + popen) \<times> event list" where
  "spawn nt name script =
     (if \<not> script_exists script then (Inl FileNotFoundError, [])
      else (popen_result script, [Popen name (\<not> nt)]))"

text \<open>
  \<open>_terminate\<close>, lines 101 to 117. \<open>terminate_handler\<close> is the \<open>except Exception\<close>
  clause: an exception that is not an \<open>Exception\<close> passes through it, one raised by
  the second \<open>proc.terminate()\<close> is dropped by the inner \<open>except Exception: pass\<close>
  unless it is not an \<open>Exception\<close> either.
\<close>

definition terminate_handler :: "popen \<Rightarrow> py_exn \<Rightarrow> (py_exn + unit) \<times> event list" where
  "terminate_handler proc e =
     (if \<not> is_Exception e then (Inl e, [])
      else
        (case terminate_again_result proc of
           Inr _ \<Rightarrow> (Inr (), [Terminate (pid proc)])
         | Inl e' \<Rightarrow>
             if is_Exception e' then (Inr (), [Terminate (pid proc)])
             else (Inl e', [Terminate (pid proc)])))"

definition emit :: "event list \<Rightarrow> 'a \<times> event list \<Rightarrow> 'a \<times> event list" where
  "emit evs r = (fst r, evs @ snd r)"

definition terminate :: "bool \<Rightarrow> popen \<Rightarrow> (py_exn + unit) \<times> event list" where
  "terminate nt proc =
     (case poll_result proc of
        Inl e \<Rightarrow> emit [Poll (pid proc)] (terminate_handler proc e)
      | Inr (Some rc) \<Rightarrow> (Inr (), [Poll (pid proc)])
      | Inr None \<Rightarrow>
          if nt then
            (case terminate_result proc of
               Inr _ \<Rightarrow> (Inr (), [Poll (pid proc), Terminate (pid proc)])
             | Inl e \<Rightarrow>
                 emit [Poll (pid proc), Terminate (pid proc)] (terminate_handler proc e))
          else
            (case killpg_result proc of
               Inr _ \<Rightarrow> (Inr (), [Poll (pid proc), Killpg (pid proc) SIGTERM])
             | Inl e \<Rightarrow>
                 emit [Poll (pid proc), Killpg (pid proc) SIGTERM] (terminate_handler proc e)))"

subsection \<open>The supervisor\<close>

text \<open>The first loop of the interrupt handler, lines 147 and 148.\<close>

fun terminate_all :: "bool \<Rightarrow> popen list \<Rightarrow> (py_exn + unit) \<times> event list" where
  "terminate_all nt [] = (Inr (), [])"
| "terminate_all nt (p # ps) =
     (case terminate nt p of
        (Inl e, evs) \<Rightarrow> (Inl e, evs)
      | (Inr _, evs) \<Rightarrow> emit evs (terminate_all nt ps))"

text \<open>
  The body of the second loop, lines 150 to 159: wait for the child for 5 seconds; on
  any \<open>Exception\<close> (the timeout is one) kill it, the process group where there is one,
  and drop any \<open>Exception\<close> of the kill.
\<close>

definition force_kill :: "bool \<Rightarrow> popen \<Rightarrow> event" where
  "force_kill nt p = (if nt then Kill (pid p) else Killpg (pid p) SIGKILL)"

definition wait_or_kill :: "bool \<Rightarrow> popen \<Rightarrow> (py_exn + unit) \<times> event list" where
  "wait_or_kill nt p =
     (case wait_timeout_result p of
        Inr _ \<Rightarrow> (Inr (), [Wait (pid p) (Some 5)])
      | Inl e \<Rightarrow>
          if \<not> is_Exception e then (Inl e, [Wait (pid p) (Some 5)])
          else
            (case kill_result p of
               Inr _ \<Rightarrow> (Inr (), [Wait (pid p) (Some 5), force_kill nt p])
             | Inl e' \<Rightarrow>
                 if is_Exception e' then (Inr (), [Wait (pid p) (Some 5), force_kill nt p])
                 else (Inl e', [Wait (pid p) (Some 5), force_kill nt p])))"

fun wait_or_kill_all :: "bool \<Rightarrow> popen list \<Rightarrow> (py_exn + unit) \<times> event list" where
  "wait_or_kill_all nt [] = (Inr (), [])"
| "wait_or_kill_all nt (p # ps) =
     (case wait_or_kill nt p of
        (Inl e, evs) \<Rightarrow> (Inl e, evs)
      | (Inr _, evs) \<Rightarrow> emit evs (wait_or_kill_all nt ps))"

text \<open>The clause \<open>except KeyboardInterrupt\<close>, lines 146 to 160.\<close>

definition on_interrupt :: "bool \<Rightarrow> popen list \<Rightarrow> (py_exn + int) \<times> event list" where
  "on_interrupt nt procs =
     (case terminate_all nt procs of
        (Inl e, evs) \<Rightarrow> (Inl e, evs)
      | (Inr _, evs) \<Rightarrow>
          (case wait_or_kill_all nt procs of
             (Inl e, evs') \<Rightarrow> (Inl e, evs @ evs')
           | (Inr _, evs') \<Rightarrow> (Inr 130, evs @ evs')))"

text \<open>The wait loop, lines 139 to 144, from the exit code so far.\<close>

fun wait_all :: "popen list \<Rightarrow> int \<Rightarrow> (py_exn + int) \<times> event list" where
  "wait_all [] exit_code = (Inr exit_code, [])"
| "wait_all (p # ps) exit_code =
     (case wait_result p of
        Inl e \<Rightarrow> (Inl e, [Wait (pid p) None])
      | Inr rc \<Rightarrow>
          emit [Wait (pid p) None]
            (wait_all ps (if rc \<noteq> 0 \<and> exit_code = 0 then rc else exit_code)))"

text \<open>
  The machine the supervisor runs on: the platform, the \<open>.env\<close> of the repository
  root, and the two scripts.
\<close>

record world = platform +
  dotenv :: path_entry
  twitch_py :: script_file
  avicbotirc_py :: script_file

text \<open>
  \<open>procs.append(_spawn(path))\<close>: the result, the list \<open>procs\<close> and the events so far.
\<close>

definition append_spawn ::
  "bool \<Rightarrow> script_name \<Rightarrow> script_file \<Rightarrow> popen list \<Rightarrow> event list \<Rightarrow>
   (py_exn + unit) \<times> popen list \<times> event list" where
  "append_spawn nt name script procs evs =
     (case spawn nt name script of
        (Inl e, evs') \<Rightarrow> (Inl e, procs, evs @ evs')
      | (Inr p, evs') \<Rightarrow> (Inr (), procs @ [p], evs @ evs'))"

text \<open>Lines 133 to 136: the Twitch bot first, then the Wikimedia bot.\<close>

definition spawn_requested :: "args \<Rightarrow> world \<Rightarrow> (py_exn + unit) \<times> popen list \<times> event list" where
  "spawn_requested a w =
     (case (if twitch a then append_spawn (os_nt w) Twitch_py (twitch_py w) [] []
            else (Inr (), [], [])) of
        (Inl e, procs, evs) \<Rightarrow> (Inl e, procs, evs)
      | (Inr _, procs, evs) \<Rightarrow>
          if wikimedia a then append_spawn (os_nt w) Avicbotirc_py (avicbotirc_py w) procs evs
          else (Inr (), procs, evs))"

text \<open>The \<open>try\<close> block, lines 133 to 144, with the list \<open>procs\<close> as it leaves it.\<close>

definition try_block :: "args \<Rightarrow> world \<Rightarrow> (py_exn + int) \<times> popen list \<times> event list" where
  "try_block a w =
     (case spawn_requested a w of
        (Inl e, procs, evs) \<Rightarrow> (Inl e, procs, evs)
      | (Inr _, procs, evs) \<Rightarrow>
          (case wait_all procs 0 of (r, evs') \<Rightarrow> (r, procs, evs @ evs')))"

text \<open>
  \<open>main\<close>, lines 120 to 160: the value returned or the exception raised, the
  environment at that moment, and the events.
\<close>

definition main :: "opt list \<Rightarrow> world \<Rightarrow> environ \<Rightarrow> (py_exn + int) \<times> environ \<times> event list" where
  "main argv w env =
     (case parse_args argv of
        (Inl e, evs) \<Rightarrow> (Inl e, env, evs)
      | (Inr a, evs) \<Rightarrow>
          (case load_dotenv w (dotenv w) env of
             (Inl e, env') \<Rightarrow> (Inl e, env', evs)
           | (Inr _, env') \<Rightarrow>
               if \<not> twitch a \<and> \<not> wikimedia a then (Inr 2, env', evs @ [Print_help Stderr])
               else
                 (case try_block a w of
                    (Inr code, procs, evs') \<Rightarrow> (Inr code, env', evs @ evs')
                  | (Inl e, procs, evs') \<Rightarrow>
                      if e = KeyboardInterrupt then
                        (case on_interrupt (os_nt w) procs of
                           (r, evs'') \<Rightarrow> (r, env', evs @ evs' @ evs''))
                      else (Inl e, env', evs @ evs'))))"

text \<open>
  An outcome is ordinary when it is a return or an exception that derives from
  \<open>Exception\<close>: the outcomes that \<open>except Exception\<close> lets the program go on from.
  A child is ordinary in the interrupt path when every call of that path on it has an
  ordinary outcome, that is, when no further interrupt arrives during one of them.
\<close>

definition ordinary :: "py_exn + 'a \<Rightarrow> bool" where
  "ordinary r = (case r of Inl e \<Rightarrow> is_Exception e | Inr _ \<Rightarrow> True)"

definition ordinary_child :: "popen \<Rightarrow> bool" where
  "ordinary_child p \<longleftrightarrow>
     ordinary (poll_result p) \<and> ordinary (killpg_result p) \<and> ordinary (terminate_result p) \<and>
     ordinary (terminate_again_result p) \<and> ordinary (wait_timeout_result p) \<and>
     ordinary (kill_result p)"

text \<open>The graceful request \<open>_terminate\<close> makes to a running child.\<close>

definition graceful :: "bool \<Rightarrow> popen \<Rightarrow> event" where
  "graceful nt p = (if nt then Terminate (pid p) else Killpg (pid p) SIGTERM)"

text \<open>
  The aggregate of a list of exit codes in the words of the contract: the first code
  that is not 0, and 0 when there is none.
\<close>

fun first_nonzero :: "int list \<Rightarrow> int" where
  "first_nonzero [] = 0"
| "first_nonzero (rc # rcs) = (if rc \<noteq> 0 then rc else first_nonzero rcs)"

subsection \<open>Machines and children for the example runs\<close>

text \<open>
  The examples run on a POSIX machine whose filesystem encoding is ASCII and on a
  Windows machine, where their names are ASCII strings. \<open>ascii_encode\<close> is
  \<open>str.encode("ascii", "surrogateescape")\<close>: a character below 128 is its byte, an
  escaped byte (\<open>U+DC80\<close> to \<open>U+DCFF\<close>) is the byte it stands for, any other
  character raises. \<open>ascii_upper\<close> is \<open>str.upper\<close> on ASCII strings. \<open>posix_putenv\<close>
  and \<open>nt_putenv\<close> are \<open>os.putenv\<close> where the system call succeeds: an empty name,
  a name with \<open>=\<close> (after its first character on Windows) and an embedded NUL raise
  \<open>ValueError\<close>, and so does, on Windows, a pair longer than 32767 UTF-16 units.
\<close>

definition ascii_encode :: "pystr \<Rightarrow> py_exn + pystr" where
  "ascii_encode s =
     (if \<forall>c\<in>set s. c < 128 \<or> (56448 \<le> c \<and> c \<le> 56575)
      then Inr (map (\<lambda>c. if c < 128 then c else c - 56320) s)
      else Inl UnicodeEncodeError)"

definition ascii_upper :: "pystr \<Rightarrow> pystr" where
  "ascii_upper s = map (\<lambda>c. if 97 \<le> c \<and> c \<le> 122 then c - 32 else c) s"

definition posix_putenv :: "pystr \<Rightarrow> pystr \<Rightarrow> py_exn + unit" where
  "posix_putenv k v =
     (if k = [] \<or> EQUALS \<in> set k \<or> NUL \<in> set k \<or> NUL \<in> set v then Inl ValueError
      else Inr ())"

definition utf16_units :: "pystr \<Rightarrow> nat" where
  "utf16_units s = sum_list (map (\<lambda>c. if c < 65536 then 1 else 2) s)"

definition nt_putenv :: "pystr \<Rightarrow> pystr \<Rightarrow> py_exn + unit" where
  "nt_putenv k v =
     (if k = [] \<or> EQUALS \<in> set (tl k) \<or> NUL \<in> set k \<or> NUL \<in> set v \<or>
         utf16_units k + 1 + utf16_units v > 32767
      then Inl ValueError
      else Inr ())"

definition ascii_posix :: platform where
  "ascii_posix =
     \<lparr>os_nt = False, str_upper = ascii_upper, fs_encode = ascii_encode, putenv = posix_putenv\<rparr>"

definition windows :: platform where
  "windows =
     \<lparr>os_nt = True, str_upper = ascii_upper, fs_encode = ascii_encode, putenv = nt_putenv\<rparr>"

text \<open>
  \<open>quiet_child n r\<close> is a running child with process id \<open>n\<close> whose \<open>wait()\<close> has the
  outcome \<open>r\<close> and which answers every call of the interrupt path without an error,
  leaving within the 5 seconds. \<open>present p\<close> is a script that exists and starts as the
  child \<open>p\<close>; \<open>absent\<close> is a script that does not exist. \<open>posix_world\<close> is the POSIX
  machine with no \<open>.env\<close> file.
\<close>

definition quiet_child :: "nat \<Rightarrow> py_exn + int \<Rightarrow> popen" where
  "quiet_child n r =
     \<lparr>pid = n, wait_result = r, poll_result = Inr None, killpg_result = Inr (),
      terminate_result = Inr (), terminate_again_result = Inr (),
      wait_timeout_result = Inr 0, kill_result = Inr ()\<rparr>"

definition present :: "popen \<Rightarrow> script_file" where
  "present p = \<lparr>script_exists = True, popen_result = Inr p\<rparr>"

definition absent :: script_file where
  "absent = \<lparr>script_exists = False, popen_result = Inl FileNotFoundError\<rparr>"

definition posix_world :: "script_file \<Rightarrow> script_file \<Rightarrow> world" where
  "posix_world tw irc =
     \<lparr>os_nt = False, str_upper = ascii_upper, fs_encode = ascii_encode, putenv = posix_putenv,
      dotenv = Missing, twitch_py = tw, avicbotirc_py = irc\<rparr>"

section \<open>Properties of the environment loader\<close>

subsection \<open>Stripping, splitting and parsing\<close>

lemmas loader_eval =
  str_def HASH_def EQUALS_def DQUOTE_def SQUOTE_def NUL_def isspace_def strip_def
  is_linebreak_def unquote_def parse_line_def setdefault_def load_line_def load_dotenv_def
  encodekey_def encodevalue_def ascii_posix_def windows_def ascii_encode_def ascii_upper_def
  posix_putenv_def nt_putenv_def utf16_units_def

lemma isspace_consts [simp]: "\<not> isspace EQUALS" "\<not> isspace HASH" "\<not> isspace NUL"
  by (simp_all add: isspace_def EQUALS_def HASH_def NUL_def)

lemma strip_blank: "list_all isspace ws \<Longrightarrow> strip ws = []"
proof -
  assume "list_all isspace ws"
  then have "dropWhile isspace ws = []"
    by (simp add: list_all_iff)
  then show ?thesis
    unfolding strip_def by (simp del: dropWhile_eq_Nil_conv)
qed

lemma strip_Nil [simp]: "strip [] = []"
  by (simp add: strip_def)

lemma strip_core:
  assumes "list_all isspace ws1" "list_all isspace ws2"
    and "s \<noteq> []" "\<not> isspace (hd s)" "\<not> isspace (last s)"
  shows "strip (ws1 @ s @ ws2) = s"
proof -
  from assms(3) obtain a s' where s: "s = a # s'" by (cases s) auto
  with assms(4) have a: "\<not> isspace a" by simp
  from assms(1) have "dropWhile isspace (ws1 @ s @ ws2) = s @ ws2"
    unfolding s using a by (simp add: dropWhile_append list_all_iff)
  moreover
  from assms(3) obtain b s'' where r: "rev s = b # s''" by (cases "rev s") auto
  then have "b = last s" using assms(3) by (metis list.sel(1) hd_rev)
  with assms(5) have b: "\<not> isspace b" by simp
  from assms(2) have "dropWhile isspace (rev (s @ ws2)) = rev s"
    unfolding rev_append r using b by (simp add: dropWhile_append list_all_iff)
  ultimately show ?thesis by (simp add: strip_def)
qed

lemma set_strip: "set (strip s) \<subseteq> set s"
proof -
  have "set (dropWhile isspace (rev (dropWhile isspace s))) \<subseteq> set (rev (dropWhile isspace s))"
    by (meson set_dropWhileD subsetI)
  also have "\<dots> \<subseteq> set s" using set_dropWhileD by fastforce
  finally show ?thesis by (simp add: strip_def)
qed

lemma strip_Cons_not_space:
  assumes "\<not> isspace a"
  shows "\<exists>t. strip (a # s) = a # t"
proof -
  have "\<exists>u. dropWhile isspace (rev s @ [a]) = u @ [a]"
    using assms by (simp add: dropWhile_append)
  then obtain u where "dropWhile isspace (rev s @ [a]) = u @ [a]" ..
  with assms have "strip (a # s) = a # rev u"
    by (simp add: strip_def)
  then show ?thesis ..
qed

lemma strip_after_blank:
  assumes "list_all isspace ws" "\<not> isspace a"
  shows "\<exists>t. strip (ws @ a # s) = a # t"
proof -
  from assms have "dropWhile isspace (ws @ a # s) = a # s"
    by (simp add: dropWhile_append list_all_iff)
  then have "strip (ws @ a # s) = strip (a # s)"
    using assms(2) by (simp add: strip_def)
  with strip_Cons_not_space [OF assms(2)] show ?thesis by simp
qed

lemma skipped_parse:
  assumes "skipped raw"
  shows "parse_line raw = None"
proof -
  consider (blank) "list_all isspace raw"
    | (comment) "dropWhile isspace raw \<noteq> []" "hd (dropWhile isspace raw) = HASH"
    | (no_eq) "EQUALS \<notin> set raw"
    | (no_key) "EQUALS \<in> set raw" "list_all isspace (takeWhile (\<lambda>c. c \<noteq> EQUALS) raw)"
    using assms unfolding skipped_def by blast
  then show ?thesis
  proof cases
    case blank
    then show ?thesis by (simp add: parse_line_def strip_blank)
  next
    case comment
    then obtain rest where d: "dropWhile isspace raw = HASH # rest"
      by (cases "dropWhile isspace raw") auto
    have "raw = takeWhile isspace raw @ HASH # rest"
      using d takeWhile_dropWhile_id [of isspace raw] by simp
    moreover have "list_all isspace (takeWhile isspace raw)"
      by (simp add: list_all_iff) (meson set_takeWhileD)
    ultimately obtain t where "strip raw = HASH # t"
      using strip_after_blank [of "takeWhile isspace raw" HASH rest] by auto
    then show ?thesis by (simp add: parse_line_def)
  next
    case no_eq
    with set_strip [of raw] have "EQUALS \<notin> set (strip raw)" by blast
    then show ?thesis by (simp add: parse_line_def Let_def)
  next
    case no_key
    from no_key(1) have "dropWhile (\<lambda>c. c \<noteq> EQUALS) raw \<noteq> []"
      by auto
    then obtain b rest where d: "dropWhile (\<lambda>c. c \<noteq> EQUALS) raw = b # rest"
      by (cases "dropWhile (\<lambda>c. c \<noteq> EQUALS) raw") auto
    with hd_dropWhile [of "\<lambda>c. c \<noteq> EQUALS" raw] have "b = EQUALS"
      by simp
    with d takeWhile_dropWhile_id [of "\<lambda>c. c \<noteq> EQUALS" raw]
    have raw: "raw = takeWhile (\<lambda>c. c \<noteq> EQUALS) raw @ EQUALS # rest"
      by simp
    with no_key(2) obtain t where "strip raw = EQUALS # t"
      using strip_after_blank [of "takeWhile (\<lambda>c. c \<noteq> EQUALS) raw" EQUALS rest] by auto
    then show ?thesis by (simp add: parse_line_def Let_def)
  qed
qed

lemma in_set_tl: "x \<in> set (tl xs) \<Longrightarrow> x \<in> set xs"
  by (cases xs) auto

lemma set_unquote: "set (unquote val) \<subseteq> set val"
  by (auto simp: unquote_def dest: in_set_butlastD in_set_tl)

subsection \<open>The loop and the store\<close>

lemma load_lines_skipped:
  "load_lines p (filter (\<lambda>l. \<not> skipped l) ls) env = load_lines p ls env"
  by (induction ls arbitrary: env)
     (auto simp: load_line_def skipped_parse split: sum.splits prod.splits)

lemma load_lines_append:
  "load_lines p (xs @ ys) env =
     (case load_lines p xs env of
        (Inl e, env') \<Rightarrow> (Inl e, env')
      | (Inr u, env') \<Rightarrow> load_lines p ys env')"
  by (induction xs arbitrary: env) (auto split: sum.splits prod.splits)

lemma setdefault_keeps: "env k = Some v \<Longrightarrow> snd (setdefault p key val env) k = Some v"
  by (auto simp: setdefault_def split: sum.splits option.splits)

lemma load_line_keeps: "env k = Some v \<Longrightarrow> snd (load_line p raw env) k = Some v"
  by (auto simp: load_line_def setdefault_keeps split: option.splits)

lemma load_lines_keeps: "env k = Some v \<Longrightarrow> snd (load_lines p ls env) k = Some v"
proof (induction ls arbitrary: env)
  case Nil
  then show ?case by simp
next
  case (Cons raw rest)
  obtain r env' where step: "load_line p raw env = (r, env')"
    by (cases "load_line p raw env")
  with Cons.prems load_line_keeps [of env k v p raw] have kept: "env' k = Some v"
    by simp
  show ?case
  proof (cases r)
    case (Inl e)
    with step kept show ?thesis by simp
  next
    case (Inr u)
    with step Cons.IH [of env', OF kept] show ?thesis by simp
  qed
qed

lemma setdefault_stores:
  "encodekey p key = Inr k \<Longrightarrow> env k = None \<Longrightarrow> encodevalue p val = Inr v \<Longrightarrow>
   putenv p k v = Inr u \<Longrightarrow> setdefault p key val env = (Inr (), env(k \<mapsto> v))"
  by (simp add: setdefault_def)

lemma setdefault_storable: "storable p key val \<Longrightarrow> fst (setdefault p key val env) = Inr ()"
  by (auto simp: setdefault_def storable_def split: sum.splits option.splits)

lemma setdefault_other:
  "encodekey p key \<noteq> Inr k \<Longrightarrow> snd (setdefault p key val env) k = env k"
  by (auto simp: setdefault_def split: sum.splits option.splits)

lemma load_lines_untouched:
  "\<forall>l\<in>set ls. \<forall>n w. parse_line l = Some (n, w) \<longrightarrow> encodekey p n \<noteq> Inr k \<Longrightarrow>
   snd (load_lines p ls env) k = env k"
proof (induction ls arbitrary: env)
  case Nil
  then show ?case by simp
next
  case (Cons raw rest)
  have one: "snd (load_line p raw env) k = env k"
    using Cons.prems by (auto simp: load_line_def setdefault_other split: option.splits)
  obtain r env' where step: "load_line p raw env = (r, env')"
    by (cases "load_line p raw env")
  with one have same: "env' k = env k" by simp
  from Cons.prems have "\<forall>l\<in>set rest. \<forall>n w. parse_line l = Some (n, w) \<longrightarrow> encodekey p n \<noteq> Inr k"
    by simp
  from Cons.IH [OF this, of env'] step same show ?case
    by (cases r) auto
qed

lemma load_lines_storable:
  "\<forall>l\<in>set ls. \<forall>n w. parse_line l = Some (n, w) \<longrightarrow> storable p n w \<Longrightarrow>
   fst (load_lines p ls env) = Inr ()"
proof (induction ls arbitrary: env)
  case Nil
  then show ?case by simp
next
  case (Cons raw rest)
  have "fst (load_line p raw env) = Inr ()"
    using Cons.prems by (auto simp: load_line_def setdefault_storable split: option.splits)
  then obtain env' where "load_line p raw env = (Inr (), env')"
    by (cases "load_line p raw env") auto
  with Cons show ?case by simp
qed

subsection \<open>The store never overrides\<close>

text \<open>
  Claim C1. On every platform, whatever the configuration file is (missing,
  unreadable, any content) and whatever the starting environment, a name that is in
  the environment before the loader runs has the same value when the loader ends,
  whether it returns or raises: the loader only ever stores under a name that is not
  defined.
\<close>

theorem load_dotenv_never_overrides:
  "env k = Some v \<Longrightarrow> snd (load_dotenv p dotenv_path env) k = Some v"
  by (cases dotenv_path) (auto simp: load_dotenv_def load_lines_keeps split: sum.splits)

theorem load_dotenv_never_overrides_witness:
  "snd (load_dotenv ascii_posix
          (RegularFile (Inr (str ''HOME=/tmp'' @ [10] @ str ''NICK=bot'')))
          [str ''HOME'' \<mapsto> str ''/root'']) (str ''HOME'') = Some (str ''/root'')"
proof -
  have present: "[str ''HOME'' \<mapsto> str ''/root''] (str ''HOME'') = Some (str ''/root'')"
    by simp
  show ?thesis
    by (rule load_dotenv_never_overrides
        [of "[str ''HOME'' \<mapsto> str ''/root'']" "str ''HOME''" "str ''/root''", OF present])
qed

subsection \<open>Quotes\<close>

lemma unquote_quoted: "q = DQUOTE \<or> q = SQUOTE \<Longrightarrow> unquote (q # body @ [q]) = body"
  by (auto simp: unquote_def)

lemma quoted_shape:
  assumes "2 \<le> length val" "hd val = last val"
  shows "\<exists>body. val = hd val # body @ [hd val]"
proof -
  from assms(1) obtain a rest where val: "val = a # rest" and rest: "rest \<noteq> []"
    by (cases val) (auto simp: Suc_le_eq)
  then have "rest = butlast rest @ [last rest]" by simp
  moreover from val rest assms(2) have "last rest = a" by simp
  ultimately have "val = hd val # butlast rest @ [hd val]"
    using val by simp
  then show ?thesis ..
qed

lemma parse_line_shaped:
  assumes ws: "list_all isspace ws1" "list_all isspace ws2" "list_all isspace ws3"
      "list_all isspace ws4"
    and key: "key \<noteq> []" "\<not> isspace (hd key)" "\<not> isspace (last key)" "hd key \<noteq> HASH"
      "EQUALS \<notin> set key"
    and val: "val = [] \<or> \<not> isspace (hd val) \<and> \<not> isspace (last val)"
  shows "parse_line (ws1 @ key @ ws2 @ [EQUALS] @ ws3 @ val @ ws4) = Some (key, unquote val)"
proof -
  let ?raw = "ws1 @ key @ ws2 @ [EQUALS] @ ws3 @ val @ ws4"
  have "\<exists>tail. strip ?raw = key @ ws2 @ EQUALS # tail \<and> strip tail = val"
  proof (cases "val = []")
    case True
    have "strip (ws1 @ (key @ ws2 @ [EQUALS]) @ (ws3 @ ws4)) = key @ ws2 @ [EQUALS]"
      using ws key by (intro strip_core) (auto simp: list_all_iff)
    with True show ?thesis by simp
  next
    case False
    with val have v: "\<not> isspace (hd val)" "\<not> isspace (last val)" by auto
    have "strip (ws1 @ (key @ ws2 @ [EQUALS] @ ws3 @ val) @ ws4) = key @ ws2 @ [EQUALS] @ ws3 @ val"
      using ws key False v by (intro strip_core) (auto simp: list_all_iff)
    moreover have "strip (ws3 @ val @ []) = val"
      using ws False v by (intro strip_core) auto
    ultimately show ?thesis by simp
  qed
  then obtain tail where line: "strip ?raw = key @ ws2 @ EQUALS # tail" and tail: "strip tail = val"
    by blast
  have before: "\<forall>c\<in>set (key @ ws2). c \<noteq> EQUALS"
    using key(5) ws(2) by (auto simp: list_all_iff)
  then have tw: "takeWhile (\<lambda>c. c \<noteq> EQUALS) (key @ ws2 @ EQUALS # tail) = key @ ws2"
    using takeWhile_append2 [of "key @ ws2" "\<lambda>c. c \<noteq> EQUALS" "EQUALS # tail"] by simp
  from before have dw: "dropWhile (\<lambda>c. c \<noteq> EQUALS) (key @ ws2 @ EQUALS # tail) = EQUALS # tail"
    using dropWhile_append2 [of "key @ ws2" "\<lambda>c. c \<noteq> EQUALS" "EQUALS # tail"] by simp
  have k: "strip (key @ ws2) = key"
    using strip_core [of "[]" ws2 key] ws(2) key by simp
  from key(1) have hd: "hd (key @ ws2 @ EQUALS # tail) = hd key" by simp
  show ?thesis
    unfolding parse_line_def line Let_def tw dw k hd
    using key(1,4) tail by simp
qed

lemma strip_decompose:
  "s = takeWhile isspace s @ strip s @ rev (takeWhile isspace (rev (dropWhile isspace s)))"
proof -
  let ?d = "dropWhile isspace s"
  have "?d = rev (dropWhile isspace (rev ?d)) @ rev (takeWhile isspace (rev ?d))"
    by (metis rev_append rev_rev_ident takeWhile_dropWhile_id)
  then have "?d = strip s @ rev (takeWhile isspace (rev ?d))"
    by (simp only: strip_def)
  with takeWhile_dropWhile_id [of isspace s] show ?thesis
    by simp
qed

lemma blank_takeWhile: "list_all isspace (takeWhile isspace s)"
  by (simp add: list_all_iff) (meson set_takeWhileD)

lemma strip_ends:
  assumes "strip s \<noteq> []"
  shows "\<not> isspace (hd (strip s))" and "\<not> isspace (last (strip s))"
proof -
  let ?d = "dropWhile isspace s"
  let ?e = "dropWhile isspace (rev ?d)"
  from assms have e: "?e \<noteq> []" by (simp add: strip_def)
  then have "\<not> isspace (hd ?e)" by (rule hd_dropWhile)
  moreover have "last (strip s) = hd ?e"
    using e by (simp add: strip_def last_rev)
  ultimately show "\<not> isspace (last (strip s))" by simp
  from e have d: "?d \<noteq> []" by (metis dropWhile.simps(1) rev.simps(1))
  then have "\<not> isspace (hd ?d)" by (rule hd_dropWhile)
  moreover have "?d = strip s @ rev (takeWhile isspace (rev ?d))"
    using strip_decompose [of s] takeWhile_dropWhile_id [of isspace s]
    by (metis same_append_eq)
  then have "hd ?d = hd (strip s)"
    using assms by (metis hd_append2)
  ultimately show "\<not> isspace (hd (strip s))" by simp
qed

lemma parsed_line_shape:
  assumes "parse_line raw = Some (key, stored)"
  shows "\<exists>ws1 ws2 ws3 ws4 val.
           raw = ws1 @ key @ ws2 @ [EQUALS] @ ws3 @ val @ ws4 \<and>
           list_all isspace ws1 \<and> list_all isspace ws2 \<and> list_all isspace ws3 \<and>
           list_all isspace ws4 \<and>
           key \<noteq> [] \<and> \<not> isspace (hd key) \<and> \<not> isspace (last key) \<and> hd key \<noteq> HASH \<and>
           EQUALS \<notin> set key \<and> (val = [] \<or> \<not> isspace (hd val) \<and> \<not> isspace (last val)) \<and>
           stored = unquote val"
proof -
  let ?line = "strip raw"
  let ?before = "takeWhile (\<lambda>c. c \<noteq> EQUALS) ?line"
  let ?after = "tl (dropWhile (\<lambda>c. c \<noteq> EQUALS) ?line)"
  let ?val = "strip ?after"
  from assms have line: "?line \<noteq> []" "hd ?line \<noteq> HASH" "EQUALS \<in> set ?line"
    and key: "key = strip ?before" "key \<noteq> []" and stored: "stored = unquote ?val"
    by (auto simp: parse_line_def Let_def split: if_splits)
  obtain w1 w4 where raw: "raw = w1 @ ?line @ w4" and w: "list_all isspace w1" "list_all isspace w4"
    using strip_decompose [of raw] blank_takeWhile [of raw]
      blank_takeWhile [of "rev (dropWhile isspace raw)"] by (metis list_all_rev)
  from line(3) have "dropWhile (\<lambda>c. c \<noteq> EQUALS) ?line \<noteq> []"
    by auto
  then obtain b rest where d: "dropWhile (\<lambda>c. c \<noteq> EQUALS) ?line = b # rest"
    by (cases "dropWhile (\<lambda>c. c \<noteq> EQUALS) ?line") auto
  with hd_dropWhile [of "\<lambda>c. c \<noteq> EQUALS" ?line] have "b = EQUALS"
    by simp
  with d takeWhile_dropWhile_id [of "\<lambda>c. c \<noteq> EQUALS" ?line]
  have split: "?line = ?before @ EQUALS # ?after"
    by simp
  from key have before: "?before \<noteq> []" by auto
  with split have "hd ?before = hd ?line" by (metis hd_append2)
  with strip_ends(1) [OF line(1)] have "\<not> isspace (hd ?before)" by simp
  with before have "takeWhile isspace ?before = []"
    by (cases ?before) auto
  with strip_decompose [of ?before] key(1)
  obtain b2 where b2: "?before = key @ b2" "list_all isspace b2"
    using blank_takeWhile [of "rev (dropWhile isspace ?before)"]
    by (metis append_Nil list_all_rev)
  obtain a1 a2 where after: "?after = a1 @ ?val @ a2" "list_all isspace a1" "list_all isspace a2"
    using strip_decompose [of ?after] blank_takeWhile [of ?after]
      blank_takeWhile [of "rev (dropWhile isspace ?after)"] by (metis list_all_rev)
  have "raw = w1 @ key @ b2 @ [EQUALS] @ a1 @ ?val @ (a2 @ w4)"
    using raw split b2(1) after(1) by (metis append.assoc append_Cons append_Nil)
  moreover have "list_all isspace (a2 @ w4)"
    using after(3) w(2) by simp
  moreover from key strip_ends [of ?before]
  have "\<not> isspace (hd key)" "\<not> isspace (last key)" by auto
  moreover from b2(1) key(2) \<open>hd ?before = hd ?line\<close> line(2) have "hd key \<noteq> HASH"
    by (metis hd_append2)
  moreover have "EQUALS \<notin> set key"
  proof
    assume "EQUALS \<in> set key"
    with b2(1) have "EQUALS \<in> set ?before" by (metis Un_iff set_append)
    then show False by (auto dest: set_takeWhileD)
  qed
  moreover have "?val = [] \<or> \<not> isspace (hd ?val) \<and> \<not> isspace (last ?val)"
    using strip_ends [of ?after] by blast
  ultimately show ?thesis
    using w(1) b2(2) after(2) key(2) stored by blast
qed

text \<open>
  Claim C6. Take any line made of a key and a value around the first \<open>=\<close>, with any
  whitespace around each of them (the key and the value are what stripping leaves: they
  neither start nor end with whitespace); every line that the loader does not skip is
  of this form (lemma \<open>parsed_line_shape\<close>). If the value has at least two characters
  and its first and last characters are the same quote, \<open>"\<close> or \<open>'\<close>, then the value
  is that quote, a body, and that quote again, and what the loader hands to
  \<open>os.environ.setdefault\<close> is the key and the body as it is: one pair is removed, the
  body is not unquoted again and nothing in it is interpreted. Any other value is
  handed over as it is. And when the name is new and the store goes through, what is
  stored under the name is the value handed over, in its stored form. The witness is
  the line \<open>KEY="value with spaces"\<close>.
\<close>

theorem load_line_strips_one_quote_pair:
  assumes ws: "list_all isspace ws1" "list_all isspace ws2" "list_all isspace ws3"
      "list_all isspace ws4"
    and key: "key \<noteq> []" "\<not> isspace (hd key)" "\<not> isspace (last key)" "hd key \<noteq> HASH"
      "EQUALS \<notin> set key"
    and val: "val = [] \<or> \<not> isspace (hd val) \<and> \<not> isspace (last val)"
  shows "(2 \<le> length val \<and> hd val = last val \<and> (hd val = DQUOTE \<or> hd val = SQUOTE) \<longrightarrow>
           (\<exists>body. val = hd val # body @ [hd val] \<and>
              parse_line (ws1 @ key @ ws2 @ [EQUALS] @ ws3 @ val @ ws4) = Some (key, body) \<and>
              load_line p (ws1 @ key @ ws2 @ [EQUALS] @ ws3 @ val @ ws4) env =
                setdefault p key body env)) \<and>
         (\<not> (2 \<le> length val \<and> hd val = last val \<and> (hd val = DQUOTE \<or> hd val = SQUOTE)) \<longrightarrow>
           parse_line (ws1 @ key @ ws2 @ [EQUALS] @ ws3 @ val @ ws4) = Some (key, val) \<and>
           load_line p (ws1 @ key @ ws2 @ [EQUALS] @ ws3 @ val @ ws4) env =
             setdefault p key val env) \<and>
         (\<forall>given k v. encodekey p key = Inr k \<and> env k = None \<and> encodevalue p given = Inr v \<and>
            putenv p k v = Inr () \<longrightarrow>
            setdefault p key given env = (Inr (), env(k \<mapsto> v)))"
proof -
  let ?raw = "ws1 @ key @ ws2 @ [EQUALS] @ ws3 @ val @ ws4"
  have parsed: "parse_line ?raw = Some (key, unquote val)"
    using ws key val by (rule parse_line_shaped)
  then have handed: "load_line p ?raw env = setdefault p key (unquote val) env"
    by (simp add: load_line_def)
  show ?thesis
  proof (intro conjI impI allI)
    assume q: "2 \<le> length val \<and> hd val = last val \<and> (hd val = DQUOTE \<or> hd val = SQUOTE)"
    then obtain body where body: "val = hd val # body @ [hd val]"
      using quoted_shape by blast
    from q have "unquote (hd val # body @ [hd val]) = body"
      by (intro unquote_quoted) blast
    with body have "unquote val = body"
      by (simp only:)
    with parsed handed body
    show "\<exists>body. val = hd val # body @ [hd val] \<and> parse_line ?raw = Some (key, body) \<and>
        load_line p ?raw env = setdefault p key body env"
      by auto
  next
    assume "\<not> (2 \<le> length val \<and> hd val = last val \<and> (hd val = DQUOTE \<or> hd val = SQUOTE))"
    then have same: "unquote val = val" by (auto simp: unquote_def)
    with parsed show "parse_line ?raw = Some (key, val)" by simp
    from same handed show "load_line p ?raw env = setdefault p key val env" by simp
  next
    fix given k v
    assume "encodekey p key = Inr k \<and> env k = None \<and> encodevalue p given = Inr v \<and>
      putenv p k v = Inr ()"
    then show "setdefault p key given env = (Inr (), env(k \<mapsto> v))"
      by (simp add: setdefault_stores)
  qed
qed

theorem load_line_strips_one_quote_pair_witness:
  "load_line ascii_posix (str ''KEY='' @ [DQUOTE] @ str ''value with spaces'' @ [DQUOTE])
     Map.empty =
     (Inr (), [str ''KEY'' \<mapsto> str ''value with spaces''])"
proof -
  let ?val = "DQUOTE # str ''value with spaces'' @ [DQUOTE]"
  let ?raw = "[] @ str ''KEY'' @ [] @ [EQUALS] @ [] @ ?val @ []"
  have shape: "2 \<le> length ?val \<and> hd ?val = last ?val \<and> (hd ?val = DQUOTE \<or> hd ?val = SQUOTE)"
    by simp
  have store: "encodekey ascii_posix (str ''KEY'') = Inr (str ''KEY'') \<and>
      Map.empty (str ''KEY'') = None \<and>
      encodevalue ascii_posix (str ''value with spaces'') = Inr (str ''value with spaces'') \<and>
      putenv ascii_posix (str ''KEY'') (str ''value with spaces'') = Inr ()"
    by (simp add: encodekey_def encodevalue_def ascii_posix_def ascii_encode_def posix_putenv_def
        str_def EQUALS_def NUL_def)
  have all: "(\<exists>body. ?val = hd ?val # body @ [hd ?val] \<and>
           load_line ascii_posix ?raw Map.empty = setdefault ascii_posix (str ''KEY'') body Map.empty) \<and>
         (\<forall>given k v. encodekey ascii_posix (str ''KEY'') = Inr k \<and> Map.empty k = None \<and>
            encodevalue ascii_posix given = Inr v \<and> putenv ascii_posix k v = Inr () \<longrightarrow>
            setdefault ascii_posix (str ''KEY'') given Map.empty = (Inr (), [k \<mapsto> v]))"
    using load_line_strips_one_quote_pair
      [of "[]" "[]" "[]" "[]" "str ''KEY''" ?val ascii_posix Map.empty] shape
    by (simp add: str_def isspace_def HASH_def EQUALS_def DQUOTE_def)
  then obtain body where body: "?val = hd ?val # body @ [hd ?val]"
    and handed: "load_line ascii_posix ?raw Map.empty =
      setdefault ascii_posix (str ''KEY'') body Map.empty"
    by blast
  from body have "body = str ''value with spaces''"
    by simp
  with handed all store show ?thesis
    by (simp add: str_def EQUALS_def)
qed

subsection \<open>Skipped lines and exceptions\<close>

text \<open>
  Claim C7, as stated, fails: the loader has no handler, and it raises when
  \<open>read_text\<close> raises and when a store raises. Here, on a POSIX machine, the file is
  the four bytes \<open>A=\<close>, NUL, which \<open>putenv\<close> refuses, and then a file that is not
  UTF-8.
\<close>

theorem load_dotenv_raises_counterexample:
  "fst (load_dotenv ascii_posix (RegularFile (Inr (str ''A='' @ [NUL]))) Map.empty)
     = Inl ValueError \<and>
   fst (load_dotenv ascii_posix (RegularFile (Inl UnicodeDecodeError)) Map.empty)
     = Inl UnicodeDecodeError"
  by (simp add: loader_eval)

text \<open>
  Claim C7, amended. On every platform: the loader returns, with the environment
  unchanged, when the file is missing or is not a regular file. When reading the file
  raises, the loader raises that exception, with the environment unchanged. When the
  file is read, the loader returns if every name and value of its lines can be
  stored; a store raises when the name cannot be encoded, and, for a name that is not
  defined, when the value cannot be encoded or \<open>putenv\<close> raises; and when the lines
  before a line are loaded and the store of that line raises, the loader raises that
  exception, keeping what the lines before have stored. For every content, a line
  that is empty after stripping, or starts with \<open>#\<close> after its leading whitespace, or
  has no \<open>=\<close>, or has an empty key, changes nothing: the loader does on the file what
  it does on the file without these lines.
\<close>

theorem load_dotenv_returns_and_skips:
  "load_dotenv p Missing env = (Inr (), env) \<and>
   load_dotenv p NotRegularFile env = (Inr (), env) \<and>
   load_dotenv p (RegularFile (Inl e)) env = (Inl e, env) \<and>
   ((\<forall>l\<in>set (splitlines content). \<forall>n w. parse_line l = Some (n, w) \<longrightarrow> storable p n w) \<longrightarrow>
      fst (load_dotenv p (RegularFile (Inr content)) env) = Inr ()) \<and>
   (encodekey p name = Inl e \<longrightarrow> setdefault p name val env = (Inl e, env)) \<and>
   (encodekey p name = Inr k \<and> env k = None \<and> encodevalue p val = Inl e \<longrightarrow>
      setdefault p name val env = (Inl e, env)) \<and>
   (encodekey p name = Inr k \<and> env k = None \<and> encodevalue p val = Inr v \<and>
    putenv p k v = Inl e \<longrightarrow>
      setdefault p name val env = (Inl e, env)) \<and>
   (splitlines content = pre @ raw # post \<and> load_lines p pre env = (Inr (), env1) \<and>
    parse_line raw = Some (name, val) \<and> setdefault p name val env1 = (Inl e, env2) \<longrightarrow>
      load_dotenv p (RegularFile (Inr content)) env = (Inl e, env2)) \<and>
   (skipped line \<longrightarrow> load_line p line env = (Inr (), env)) \<and>
   load_lines p (filter (\<lambda>l. \<not> skipped l) ls) env = load_lines p ls env"
proof -
  have returns: "fst (load_dotenv p (RegularFile (Inr content)) env) = Inr ()"
    if "\<forall>l\<in>set (splitlines content). \<forall>n w. parse_line l = Some (n, w) \<longrightarrow> storable p n w"
    using load_lines_storable [OF that] by (simp add: load_dotenv_def)
  have raises: "load_dotenv p (RegularFile (Inr content)) env = (Inl e, env2)"
    if "splitlines content = pre @ raw # post \<and> load_lines p pre env = (Inr (), env1) \<and>
        parse_line raw = Some (name, val) \<and> setdefault p name val env1 = (Inl e, env2)"
    using that by (simp add: load_dotenv_def load_lines_append load_line_def)
  show ?thesis
    using returns raises
    by (simp add: load_dotenv_def load_line_def skipped_parse load_lines_skipped setdefault_def)
qed

theorem load_dotenv_returns_and_skips_witness:
  "fst (load_dotenv ascii_posix
          (RegularFile (Inr (str ''# secrets'' @ [10] @ str ''NICK=bot''))) Map.empty) = Inr () \<and>
   load_line ascii_posix (str ''  # secrets'') Map.empty = (Inr (), Map.empty) \<and>
   load_dotenv ascii_posix
     (RegularFile (Inr (str ''NICK=bot'' @ [10] @ str ''KEY='' @ [8364] @ [10] @ str ''PORT=1'')))
     Map.empty = (Inl UnicodeEncodeError, [str ''NICK'' \<mapsto> str ''bot''])"
proof -
  let ?ok = "str ''# secrets'' @ [10] @ str ''NICK=bot''"
  let ?bad = "str ''NICK=bot'' @ [10] @ str ''KEY='' @ [8364] @ [10] @ str ''PORT=1''"
  have storable: "\<forall>l\<in>set (splitlines ?ok). \<forall>n w. parse_line l = Some (n, w) \<longrightarrow>
      storable ascii_posix n w"
    by (simp add: loader_eval storable_def)
  have comment: "skipped (str ''  # secrets'')"
    by (simp add: skipped_def str_def isspace_def HASH_def)
  have lines: "splitlines ?bad = [str ''NICK=bot''] @ (str ''KEY='' @ [8364]) # [str ''PORT=1'']"
    by (simp add: str_def is_linebreak_def)
  have before: "load_lines ascii_posix [str ''NICK=bot''] Map.empty =
      (Inr (), [str ''NICK'' \<mapsto> str ''bot''])"
    by (simp add: loader_eval)
  have line: "parse_line (str ''KEY='' @ [8364]) = Some (str ''KEY'', [8364])"
    by (simp add: loader_eval)
  have name: "encodekey ascii_posix (str ''KEY'') = Inr (str ''KEY'')"
    and fresh: "[str ''NICK'' \<mapsto> str ''bot''] (str ''KEY'') = None"
    and euro: "encodevalue ascii_posix [8364] = Inl UnicodeEncodeError"
    by (simp_all add: loader_eval)
  from load_dotenv_returns_and_skips
    [where p = ascii_posix and env = "[str ''NICK'' \<mapsto> str ''bot'']"
       and e = UnicodeEncodeError and name = "str ''KEY''" and val = "[8364]"
       and k = "str ''KEY''"]
    name fresh euro
  have store: "setdefault ascii_posix (str ''KEY'') [8364] [str ''NICK'' \<mapsto> str ''bot''] =
      (Inl UnicodeEncodeError, [str ''NICK'' \<mapsto> str ''bot''])"
    by blast
  from load_dotenv_returns_and_skips
    [where p = ascii_posix and env = Map.empty and content = ?ok
       and line = "str ''  # secrets''"]
    storable comment
  have first: "fst (load_dotenv ascii_posix (RegularFile (Inr ?ok)) Map.empty) = Inr ()"
    and second: "load_line ascii_posix (str ''  # secrets'') Map.empty = (Inr (), Map.empty)"
    by blast+
  from load_dotenv_returns_and_skips
    [where p = ascii_posix and env = Map.empty and e = UnicodeEncodeError and content = ?bad
       and name = "str ''KEY''" and val = "[8364]"
       and pre = "[str ''NICK=bot'']" and raw = "str ''KEY='' @ [8364]"
       and post = "[str ''PORT=1'']"
       and ?env1.0 = "[str ''NICK'' \<mapsto> str ''bot'']"
       and ?env2.0 = "[str ''NICK'' \<mapsto> str ''bot'']"]
    lines before line store
  have third: "load_dotenv ascii_posix (RegularFile (Inr ?bad)) Map.empty =
      (Inl UnicodeEncodeError, [str ''NICK'' \<mapsto> str ''bot''])"
    by blast
  from first second third show ?thesis by blast
qed

subsection \<open>The first line of a key wins\<close>

text \<open>
  Claim C10, as stated, fails: the loop ends at the first store that raises, so a
  line after it defines nothing. Here the first line asks for a value with a NUL
  character and the second line is \<open>B=1\<close>, the only line of the key \<open>B\<close>, which is
  not in the environment: the loader raises and \<open>B\<close> has no value.
\<close>

theorem load_dotenv_later_line_lost_counterexample:
  "parse_line (str ''B=1'') = Some (str ''B'', str ''1'') \<and>
   load_dotenv ascii_posix (RegularFile (Inr (str ''A='' @ [NUL, 10] @ str ''B=1''))) Map.empty =
     (Inl ValueError, Map.empty)"
  by (simp add: loader_eval)

text \<open>
  Claim C10, amended. On every platform, for every file content and every name that
  is not in the environment before, names being the same when they are stored the
  same (on Windows, when they differ in case only): if the loader gets through the
  lines before the earliest line that defines the name, and the store of that line
  goes through, then the name has the value of that line when the loader ends,
  whatever the lines after it are, whether they define the name again or raise. The
  witness is a Windows machine and the lines \<open>nick=first\<close> and \<open>NICK=second\<close>.
\<close>

theorem load_dotenv_first_line_wins:
  assumes lines: "splitlines content = pre @ raw # post"
    and first: "parse_line raw = Some (name, val)" "encodekey p name = Inr k"
    and earliest: "\<forall>l\<in>set pre. \<forall>n w. parse_line l = Some (n, w) \<longrightarrow> encodekey p n \<noteq> Inr k"
    and fresh: "env k = None"
    and reached: "fst (load_lines p pre env) = Inr ()"
    and stored: "encodevalue p val = Inr v" "putenv p k v = Inr ()"
  shows "snd (load_dotenv p (RegularFile (Inr content)) env) k = Some v"
proof -
  obtain env1 where pre: "load_lines p pre env = (Inr (), env1)"
    using reached by (cases "load_lines p pre env") auto
  from load_lines_untouched [OF earliest, of env] pre fresh have "env1 k = None"
    by simp
  with first stored have line: "load_line p raw env1 = (Inr (), env1(k \<mapsto> v))"
    by (simp add: load_line_def setdefault_stores)
  have "(env1(k \<mapsto> v)) k = Some v"
    by simp
  then have "snd (load_lines p post (env1(k \<mapsto> v))) k = Some v"
    by (rule load_lines_keeps)
  with pre line have "snd (load_lines p (pre @ raw # post) env) k = Some v"
    by (simp add: load_lines_append)
  with lines show ?thesis
    by (simp add: load_dotenv_def)
qed

theorem load_dotenv_first_line_wins_witness:
  "snd (load_dotenv windows
          (RegularFile (Inr (str ''PORT=6667'' @ [10] @ str ''nick=first'' @ [10] @
                             str ''NICK=second'')))
          Map.empty) (str ''NICK'') = Some (str ''first'')"
proof -
  let ?content = "str ''PORT=6667'' @ [10] @ str ''nick=first'' @ [10] @ str ''NICK=second''"
  have lines: "splitlines ?content = [str ''PORT=6667''] @ str ''nick=first'' # [str ''NICK=second'']"
    by (simp add: str_def is_linebreak_def)
  have line: "parse_line (str ''nick=first'') = Some (str ''nick'', str ''first'')"
    by (simp add: loader_eval)
  have name: "encodekey windows (str ''nick'') = Inr (str ''NICK'')"
    by (simp add: loader_eval)
  have earliest: "\<forall>l\<in>set [str ''PORT=6667'']. \<forall>n w. parse_line l = Some (n, w) \<longrightarrow>
      encodekey windows n \<noteq> Inr (str ''NICK'')"
    by (simp add: loader_eval)
  have fresh: "Map.empty (str ''NICK'') = None"
    by simp
  have reached: "fst (load_lines windows [str ''PORT=6667''] Map.empty) = Inr ()"
    by (simp add: loader_eval)
  have encoded: "encodevalue windows (str ''first'') = Inr (str ''first'')"
    by (simp add: loader_eval)
  have put: "putenv windows (str ''NICK'') (str ''first'') = Inr ()"
    by (simp add: loader_eval)
  show ?thesis
    by (rule load_dotenv_first_line_wins [OF lines line name earliest fresh reached encoded put])
qed

section \<open>Properties of the supervisor\<close>

subsection \<open>The command line\<close>

lemmas run_eval =
  main_def parse_args_def load_dotenv_def try_block_def spawn_requested_def append_spawn_def
  spawn_def emit_def on_interrupt_def terminate_def terminate_handler_def wait_or_kill_def
  force_kill_def graceful_def quiet_child_def present_def absent_def posix_world_def

lemma parse_opts_returns:
  "Opt_version \<notin> set argv \<Longrightarrow> Opt_help \<notin> set argv \<Longrightarrow>
   parse_opts argv a =
     (Inr \<lparr>twitch = twitch a \<or> Opt_Twitch \<in> set argv \<or> Opt_twitch \<in> set argv,
           wikimedia = wikimedia a \<or> Opt_Wikimedia \<in> set argv \<or> Opt_wikimedia \<in> set argv\<rparr>, [])"
  by (induction argv a rule: parse_opts.induct) auto

lemma parse_args_returns:
  "Opt_version \<notin> set argv \<Longrightarrow> Opt_help \<notin> set argv \<Longrightarrow>
   parse_args argv =
     (Inr \<lparr>twitch = Opt_Twitch \<in> set argv \<or> Opt_twitch \<in> set argv,
           wikimedia = Opt_Wikimedia \<in> set argv \<or> Opt_wikimedia \<in> set argv\<rparr>, [])"
  by (simp add: parse_args_def parse_opts_returns)

lemma parse_opts_no_events: "parse_opts argv a = (Inr a', evs) \<Longrightarrow> evs = []"
  by (induction argv a rule: parse_opts.induct) auto

lemma parse_args_no_events: "parse_args argv = (Inr a, evs) \<Longrightarrow> evs = []"
  unfolding parse_args_def by (rule parse_opts_no_events)

subsection \<open>The wait loop\<close>

lemma wait_all_codes:
  "map wait_result procs = map Inr codes \<Longrightarrow>
   wait_all procs acc =
     (Inr (if acc \<noteq> 0 then acc else first_nonzero codes), map (\<lambda>p. Wait (pid p) None) procs)"
proof (induction procs arbitrary: acc codes)
  case Nil
  then show ?case by simp
next
  case (Cons p ps)
  then obtain rc rcs where codes: "codes = rc # rcs" and p: "wait_result p = Inr rc"
    and ps: "map wait_result ps = map Inr rcs"
    by (cases codes) auto
  show ?case
    using Cons.IH [OF ps] by (simp add: p codes emit_def)
qed

lemma wait_all_raises:
  "map wait_result pre = map Inr codes \<Longrightarrow> wait_result p = Inl e \<Longrightarrow>
   wait_all (pre @ p # post) acc =
     (Inl e, map (\<lambda>q. Wait (pid q) None) pre @ [Wait (pid p) None])"
proof (induction pre arbitrary: acc codes)
  case Nil
  then show ?case by simp
next
  case (Cons q qs)
  then obtain rc rcs where codes: "codes = rc # rcs" and q: "wait_result q = Inr rc"
    and qs: "map wait_result qs = map Inr rcs"
    by (cases codes) auto
  show ?case
    using Cons.IH [OF qs Cons.prems(2)] by (simp add: q emit_def)
qed

lemma first_nonzero_zeros: "\<forall>rc\<in>set codes. rc = 0 \<Longrightarrow> first_nonzero codes = 0"
  by (induction codes) auto

lemma first_nonzero_first:
  "\<forall>z\<in>set zs. z = 0 \<Longrightarrow> rc \<noteq> 0 \<Longrightarrow> first_nonzero (zs @ rc # rest) = rc"
  by (induction zs) auto

subsection \<open>The interrupt path\<close>

lemma terminate_ordinary:
  assumes "ordinary_child p"
  shows "fst (terminate nt p) = Inr ()"
    and "Poll (pid p) \<in> set (snd (terminate nt p))"
    and "poll_result p = Inr None \<Longrightarrow> graceful nt p \<in> set (snd (terminate nt p))"
  using assms
  by (auto simp: terminate_def ordinary_child_def ordinary_def graceful_def emit_def
      terminate_handler_def split: sum.splits option.splits)

lemma wait_or_kill_ordinary:
  assumes "ordinary_child p"
  shows "fst (wait_or_kill nt p) = Inr ()"
    and "Wait (pid p) (Some 5) \<in> set (snd (wait_or_kill nt p))"
    and "isl (wait_timeout_result p) \<Longrightarrow> force_kill nt p \<in> set (snd (wait_or_kill nt p))"
  using assms
  by (auto simp: wait_or_kill_def ordinary_child_def ordinary_def split: sum.splits)

lemma terminate_all_ordinary:
  "\<forall>p\<in>set procs. ordinary_child p \<Longrightarrow>
   terminate_all nt procs = (Inr (), concat (map (\<lambda>p. snd (terminate nt p)) procs))"
proof (induction procs)
  case Nil
  then show ?case by simp
next
  case (Cons p ps)
  then have "fst (terminate nt p) = Inr ()"
    by (simp add: terminate_ordinary(1))
  then obtain evs where "terminate nt p = (Inr (), evs)"
    by (cases "terminate nt p") auto
  with Cons show ?case by (simp add: emit_def)
qed

lemma wait_or_kill_all_ordinary:
  "\<forall>p\<in>set procs. ordinary_child p \<Longrightarrow>
   wait_or_kill_all nt procs = (Inr (), concat (map (\<lambda>p. snd (wait_or_kill nt p)) procs))"
proof (induction procs)
  case Nil
  then show ?case by simp
next
  case (Cons p ps)
  then have "fst (wait_or_kill nt p) = Inr ()"
    by (simp add: wait_or_kill_ordinary(1))
  then obtain evs where "wait_or_kill nt p = (Inr (), evs)"
    by (cases "wait_or_kill nt p") auto
  with Cons show ?case by (simp add: emit_def)
qed

lemma on_interrupt_ordinary:
  "\<forall>p\<in>set procs. ordinary_child p \<Longrightarrow>
   on_interrupt nt procs =
     (Inr 130, concat (map (\<lambda>p. snd (terminate nt p)) procs) @
               concat (map (\<lambda>p. snd (wait_or_kill nt p)) procs))"
  by (simp add: on_interrupt_def terminate_all_ordinary wait_or_kill_all_ordinary)

text \<open>
  Claim C8, as stated, fails: the handlers of the interrupt path are
  \<open>except Exception\<close>, and \<open>KeyboardInterrupt\<close> is not an \<open>Exception\<close>. When the
  supervisor is interrupted again while it waits its 5 seconds for a child (the
  outcome of \<open>p.wait(timeout=5)\<close> is \<open>KeyboardInterrupt\<close>), the exception leaves the
  interrupt path, and the child is not killed.
\<close>

theorem on_interrupt_raises_counterexample:
  "fst (on_interrupt False
     [(quiet_child 101 (Inl KeyboardInterrupt))\<lparr>wait_timeout_result := Inl KeyboardInterrupt\<rparr>])
     = Inl KeyboardInterrupt \<and>
   Killpg 101 SIGKILL \<notin> set (snd (on_interrupt False
     [(quiet_child 101 (Inl KeyboardInterrupt))\<lparr>wait_timeout_result := Inl KeyboardInterrupt\<rparr>]))"
  by (simp add: run_eval)

lemma terminate_all_raises:
  "\<forall>q\<in>set pre. fst (terminate nt q) = Inr () \<Longrightarrow> fst (terminate nt c) = Inl e \<Longrightarrow>
   terminate_all nt (pre @ c # post) =
     (Inl e, concat (map (\<lambda>q. snd (terminate nt q)) pre) @ snd (terminate nt c))"
proof (induction pre)
  case Nil
  then show ?case by (cases "terminate nt c") auto
next
  case (Cons q qs)
  then obtain evs where "terminate nt q = (Inr (), evs)"
    by (cases "terminate nt q") auto
  with Cons show ?case by (simp add: emit_def)
qed

lemma terminate_all_returns:
  "\<forall>q\<in>set procs. fst (terminate nt q) = Inr () \<Longrightarrow>
   terminate_all nt procs = (Inr (), concat (map (\<lambda>q. snd (terminate nt q)) procs))"
proof (induction procs)
  case Nil
  then show ?case by simp
next
  case (Cons q qs)
  then obtain evs where "terminate nt q = (Inr (), evs)"
    by (cases "terminate nt q") auto
  with Cons show ?case by (simp add: emit_def)
qed

lemma wait_or_kill_all_raises:
  "\<forall>q\<in>set pre. fst (wait_or_kill nt q) = Inr () \<Longrightarrow> fst (wait_or_kill nt c) = Inl e \<Longrightarrow>
   wait_or_kill_all nt (pre @ c # post) =
     (Inl e, concat (map (\<lambda>q. snd (wait_or_kill nt q)) pre) @ snd (wait_or_kill nt c))"
proof (induction pre)
  case Nil
  then show ?case by (cases "wait_or_kill nt c") auto
next
  case (Cons q qs)
  then obtain evs where "wait_or_kill nt q = (Inr (), evs)"
    by (cases "wait_or_kill nt q") auto
  with Cons show ?case by (simp add: emit_def)
qed

text \<open>
  Claim C8, amended. For every list of children, on either kind of system. When every
  outcome of the calls of the interrupt path is a return or an exception deriving from
  \<open>Exception\<close>, the path does not raise and ends with the code 130; it first calls
  \<open>_terminate\<close> on every child, in order, which polls the child and does not raise,
  and asks every child found running to terminate (its process group where there is
  one); it then waits for every child with a timeout of 5 seconds, each on its own, and
  kills every child whose wait failed, the timeout included. An exception that does
  not derive from \<open>Exception\<close>, as \<open>KeyboardInterrupt\<close>, is not swallowed at any of
  the five calls: raised by the poll, by the request to terminate, by the second
  \<open>terminate\<close> of the handler, by the wait or by the kill, it leaves \<open>_terminate\<close> or
  the body of the second loop at that call, and it leaves the interrupt path there,
  with no call made after it.
\<close>

theorem on_interrupt_swallows_exceptions:
  "((\<forall>p\<in>set procs. ordinary_child p) \<longrightarrow>
      on_interrupt nt procs =
        (Inr 130, concat (map (\<lambda>p. snd (terminate nt p)) procs) @
                  concat (map (\<lambda>p. snd (wait_or_kill nt p)) procs)) \<and>
      (\<forall>p\<in>set procs.
         fst (terminate nt p) = Inr () \<and>
         Poll (pid p) \<in> set (snd (on_interrupt nt procs)) \<and>
         (poll_result p = Inr None \<longrightarrow> graceful nt p \<in> set (snd (on_interrupt nt procs))) \<and>
         Wait (pid p) (Some 5) \<in> set (snd (on_interrupt nt procs)) \<and>
         (isl (wait_timeout_result p) \<longrightarrow>
            force_kill nt p \<in> set (snd (on_interrupt nt procs))))) \<and>
   (\<not> is_Exception e \<longrightarrow>
      (poll_result c = Inl e \<longrightarrow> terminate nt c = (Inl e, [Poll (pid c)])) \<and>
      (poll_result c = Inr None \<and> (if nt then terminate_result c else killpg_result c) = Inl e \<longrightarrow>
         terminate nt c = (Inl e, [Poll (pid c), graceful nt c])) \<and>
      (poll_result c = Inl e0 \<and> is_Exception e0 \<and> terminate_again_result c = Inl e \<longrightarrow>
         terminate nt c = (Inl e, [Poll (pid c), Terminate (pid c)])) \<and>
      (poll_result c = Inr None \<and> (if nt then terminate_result c else killpg_result c) = Inl e0 \<and>
       is_Exception e0 \<and> terminate_again_result c = Inl e \<longrightarrow>
         terminate nt c = (Inl e, [Poll (pid c), graceful nt c, Terminate (pid c)])) \<and>
      (wait_timeout_result c = Inl e \<longrightarrow>
         wait_or_kill nt c = (Inl e, [Wait (pid c) (Some 5)])) \<and>
      (wait_timeout_result c = Inl e0 \<and> is_Exception e0 \<and> kill_result c = Inl e \<longrightarrow>
         wait_or_kill nt c = (Inl e, [Wait (pid c) (Some 5), force_kill nt c]))) \<and>
   (procs = pre @ c # post \<and> (\<forall>q\<in>set pre. fst (terminate nt q) = Inr ()) \<and>
    fst (terminate nt c) = Inl e \<longrightarrow>
      on_interrupt nt procs =
        (Inl e, concat (map (\<lambda>q. snd (terminate nt q)) pre) @ snd (terminate nt c))) \<and>
   (procs = pre @ c # post \<and> (\<forall>q\<in>set procs. fst (terminate nt q) = Inr ()) \<and>
    (\<forall>q\<in>set pre. fst (wait_or_kill nt q) = Inr ()) \<and> fst (wait_or_kill nt c) = Inl e \<longrightarrow>
      on_interrupt nt procs =
        (Inl e, concat (map (\<lambda>q. snd (terminate nt q)) procs) @
                concat (map (\<lambda>q. snd (wait_or_kill nt q)) pre) @ snd (wait_or_kill nt c)))"
proof (intro conjI)
  show "(\<forall>p\<in>set procs. ordinary_child p) \<longrightarrow>
      on_interrupt nt procs =
        (Inr 130, concat (map (\<lambda>p. snd (terminate nt p)) procs) @
                  concat (map (\<lambda>p. snd (wait_or_kill nt p)) procs)) \<and>
      (\<forall>p\<in>set procs.
         fst (terminate nt p) = Inr () \<and>
         Poll (pid p) \<in> set (snd (on_interrupt nt procs)) \<and>
         (poll_result p = Inr None \<longrightarrow> graceful nt p \<in> set (snd (on_interrupt nt procs))) \<and>
         Wait (pid p) (Some 5) \<in> set (snd (on_interrupt nt procs)) \<and>
         (isl (wait_timeout_result p) \<longrightarrow>
            force_kill nt p \<in> set (snd (on_interrupt nt procs))))"
  proof (intro impI conjI ballI)
    assume all: "\<forall>p\<in>set procs. ordinary_child p"
    then show run: "on_interrupt nt procs =
           (Inr 130, concat (map (\<lambda>p. snd (terminate nt p)) procs) @
                     concat (map (\<lambda>p. snd (wait_or_kill nt p)) procs))"
      by (rule on_interrupt_ordinary)
    fix p assume p: "p \<in> set procs"
    with all have ord: "ordinary_child p" by blast
    show "fst (terminate nt p) = Inr ()"
      using ord by (rule terminate_ordinary(1))
    show "Poll (pid p) \<in> set (snd (on_interrupt nt procs))"
      unfolding run using terminate_ordinary(2) [OF ord, of nt] p by auto
    show "poll_result p = Inr None \<Longrightarrow> graceful nt p \<in> set (snd (on_interrupt nt procs))"
      unfolding run using terminate_ordinary(3) [OF ord, of nt] p by auto
    show "Wait (pid p) (Some 5) \<in> set (snd (on_interrupt nt procs))"
      unfolding run using wait_or_kill_ordinary(2) [OF ord, of nt] p by auto
    show "isl (wait_timeout_result p) \<Longrightarrow> force_kill nt p \<in> set (snd (on_interrupt nt procs))"
      unfolding run using wait_or_kill_ordinary(3) [OF ord, of nt] p by auto
  qed
next
  show "\<not> is_Exception e \<longrightarrow>
      (poll_result c = Inl e \<longrightarrow> terminate nt c = (Inl e, [Poll (pid c)])) \<and>
      (poll_result c = Inr None \<and> (if nt then terminate_result c else killpg_result c) = Inl e \<longrightarrow>
         terminate nt c = (Inl e, [Poll (pid c), graceful nt c])) \<and>
      (poll_result c = Inl e0 \<and> is_Exception e0 \<and> terminate_again_result c = Inl e \<longrightarrow>
         terminate nt c = (Inl e, [Poll (pid c), Terminate (pid c)])) \<and>
      (poll_result c = Inr None \<and> (if nt then terminate_result c else killpg_result c) = Inl e0 \<and>
       is_Exception e0 \<and> terminate_again_result c = Inl e \<longrightarrow>
         terminate nt c = (Inl e, [Poll (pid c), graceful nt c, Terminate (pid c)])) \<and>
      (wait_timeout_result c = Inl e \<longrightarrow>
         wait_or_kill nt c = (Inl e, [Wait (pid c) (Some 5)])) \<and>
      (wait_timeout_result c = Inl e0 \<and> is_Exception e0 \<and> kill_result c = Inl e \<longrightarrow>
         wait_or_kill nt c = (Inl e, [Wait (pid c) (Some 5), force_kill nt c]))"
    by (cases nt)
       (simp_all add: terminate_def terminate_handler_def wait_or_kill_def emit_def graceful_def)
next
  show "procs = pre @ c # post \<and> (\<forall>q\<in>set pre. fst (terminate nt q) = Inr ()) \<and>
    fst (terminate nt c) = Inl e \<longrightarrow>
      on_interrupt nt procs =
        (Inl e, concat (map (\<lambda>q. snd (terminate nt q)) pre) @ snd (terminate nt c))"
    by (auto simp: on_interrupt_def terminate_all_raises)
next
  show "procs = pre @ c # post \<and> (\<forall>q\<in>set procs. fst (terminate nt q) = Inr ()) \<and>
    (\<forall>q\<in>set pre. fst (wait_or_kill nt q) = Inr ()) \<and> fst (wait_or_kill nt c) = Inl e \<longrightarrow>
      on_interrupt nt procs =
        (Inl e, concat (map (\<lambda>q. snd (terminate nt q)) procs) @
                concat (map (\<lambda>q. snd (wait_or_kill nt q)) pre) @ snd (wait_or_kill nt c))"
  proof (intro impI)
    assume h: "procs = pre @ c # post \<and> (\<forall>q\<in>set procs. fst (terminate nt q) = Inr ()) \<and>
      (\<forall>q\<in>set pre. fst (wait_or_kill nt q) = Inr ()) \<and> fst (wait_or_kill nt c) = Inl e"
    then have t: "terminate_all nt procs =
        (Inr (), concat (map (\<lambda>q. snd (terminate nt q)) procs))"
      by (intro terminate_all_returns) blast
    from h have "wait_or_kill_all nt (pre @ c # post) =
        (Inl e, concat (map (\<lambda>q. snd (wait_or_kill nt q)) pre) @ snd (wait_or_kill nt c))"
      by (intro wait_or_kill_all_raises) blast+
    with h have "wait_or_kill_all nt procs =
        (Inl e, concat (map (\<lambda>q. snd (wait_or_kill nt q)) pre) @ snd (wait_or_kill nt c))"
      by simp
    with t show "on_interrupt nt procs =
        (Inl e, concat (map (\<lambda>q. snd (terminate nt q)) procs) @
                concat (map (\<lambda>q. snd (wait_or_kill nt q)) pre) @ snd (wait_or_kill nt c))"
      by (simp add: on_interrupt_def)
  qed
qed

theorem on_interrupt_swallows_exceptions_witness:
  "on_interrupt False
     [(quiet_child 101 (Inl KeyboardInterrupt))
        \<lparr>killpg_result := Inl OSError, terminate_again_result := Inl OSError,
         wait_timeout_result := Inl TimeoutExpired, kill_result := Inl OSError\<rparr>] =
   (Inr 130, [Poll 101, Killpg 101 SIGTERM, Terminate 101, Wait 101 (Some 5), Killpg 101 SIGKILL]) \<and>
   on_interrupt False
     [quiet_child 101 (Inl KeyboardInterrupt),
      (quiet_child 202 (Inr 0))\<lparr>killpg_result := Inl KeyboardInterrupt\<rparr>,
      quiet_child 303 (Inr 0)] =
   (Inl KeyboardInterrupt, [Poll 101, Killpg 101 SIGTERM, Poll 202, Killpg 202 SIGTERM])"
proof -
  let ?c = "(quiet_child 101 (Inl KeyboardInterrupt))
        \<lparr>killpg_result := Inl OSError, terminate_again_result := Inl OSError,
         wait_timeout_result := Inl TimeoutExpired, kill_result := Inl OSError\<rparr>"
  let ?a = "quiet_child 101 (Inl KeyboardInterrupt)"
  let ?b = "(quiet_child 202 (Inr 0))\<lparr>killpg_result := Inl KeyboardInterrupt\<rparr>"
  let ?d = "quiet_child 303 (Inr 0)"
  have ord: "\<forall>p\<in>set [?c]. ordinary_child p"
    by (simp add: ordinary_child_def ordinary_def quiet_child_def)
  from on_interrupt_swallows_exceptions [where procs = "[?c]" and nt = False] ord
  have "on_interrupt False [?c] =
      (Inr 130, concat (map (\<lambda>p. snd (terminate False p)) [?c]) @
                concat (map (\<lambda>p. snd (wait_or_kill False p)) [?c]))"
    by blast
  then have first: "on_interrupt False [?c] =
      (Inr 130, [Poll 101, Killpg 101 SIGTERM, Terminate 101, Wait 101 (Some 5),
                 Killpg 101 SIGKILL])"
    by (simp add: terminate_def terminate_handler_def wait_or_kill_def force_kill_def
        emit_def quiet_child_def)
  have running: "poll_result ?b = Inr None \<and>
      (if False then terminate_result ?b else killpg_result ?b) = Inl KeyboardInterrupt"
    by (simp add: quiet_child_def)
  from on_interrupt_swallows_exceptions
    [where e = KeyboardInterrupt and c = ?b and nt = False] running
  have escapes: "terminate False ?b = (Inl KeyboardInterrupt, [Poll (pid ?b), graceful False ?b])"
    by simp
  have before: "\<forall>q\<in>set [?a]. fst (terminate False q) = Inr ()"
    by (simp add: terminate_def quiet_child_def)
  from on_interrupt_swallows_exceptions
    [where e = KeyboardInterrupt and c = ?b and nt = False and procs = "[?a, ?b, ?d]"
       and pre = "[?a]" and post = "[?d]"] before escapes
  have "on_interrupt False [?a, ?b, ?d] =
      (Inl KeyboardInterrupt,
       concat (map (\<lambda>q. snd (terminate False q)) [?a]) @ snd (terminate False ?b))"
    by simp
  with escapes have second: "on_interrupt False [?a, ?b, ?d] =
      (Inl KeyboardInterrupt, [Poll 101, Killpg 101 SIGTERM, Poll 202, Killpg 202 SIGTERM])"
    by (simp add: terminate_def graceful_def quiet_child_def)
  from first second show ?thesis by blast
qed

subsection \<open>Runs of the supervisor\<close>

lemma main_supervises:
  assumes "parse_args argv = (Inr a, evs0)"
    and "load_dotenv w (dotenv w) env = (Inr (), env')"
    and "twitch a \<or> wikimedia a"
    and "spawn_requested a w = (Inr (), procs, evs1)"
  shows "main argv w env =
     (case wait_all procs 0 of
        (Inr code, evs) \<Rightarrow> (Inr code, env', evs1 @ evs)
      | (Inl e, evs) \<Rightarrow>
          if e = KeyboardInterrupt then
            (case on_interrupt (os_nt w) procs of (r, evs'') \<Rightarrow> (r, env', evs1 @ evs @ evs''))
          else (Inl e, env', evs1 @ evs))"
proof -
  from assms(1) have "evs0 = []" by (rule parse_args_no_events)
  with assms show ?thesis
    by (auto simp: main_def try_block_def split: prod.splits sum.splits)
qed

lemma main_spawn_fails:
  assumes "parse_args argv = (Inr a, evs0)"
    and "load_dotenv w (dotenv w) env = (Inr (), env')"
    and "twitch a \<or> wikimedia a"
    and "spawn_requested a w = (Inl e, procs, evs1)"
    and "e \<noteq> KeyboardInterrupt"
  shows "main argv w env = (Inl e, env', evs1)"
proof -
  from assms(1) have "evs0 = []" by (rule parse_args_no_events)
  with assms show ?thesis
    by (simp add: main_def try_block_def)
qed

lemma spawn_requested_nonempty:
  "spawn_requested a w = (r, procs, evs) \<Longrightarrow> procs \<noteq> [] \<Longrightarrow> twitch a \<or> wikimedia a"
  by (auto simp: spawn_requested_def split: if_splits)

text \<open>
  Claim C3. For every list of children and every list of their exit codes, the wait
  loop waits for every child, in order, and returns 0 when every code is 0 and
  otherwise the first code that is not 0, whatever the codes after it; and a run of
  the supervisor that has spawned the children it was asked for returns that value,
  after it has waited for all of them. The witness is the run where the first child
  exits with 0 and the second with 5.
\<close>

theorem main_aggregate_exit_code:
  assumes "map wait_result procs = map Inr codes"
  shows "((\<forall>rc\<in>set codes. rc = 0) \<longrightarrow>
            wait_all procs 0 = (Inr 0, map (\<lambda>p. Wait (pid p) None) procs)) \<and>
         (\<forall>zs rc rest. codes = zs @ rc # rest \<and> (\<forall>z\<in>set zs. z = 0) \<and> rc \<noteq> 0 \<longrightarrow>
            wait_all procs 0 = (Inr rc, map (\<lambda>p. Wait (pid p) None) procs)) \<and>
         (parse_args argv = (Inr a, evs0) \<and> load_dotenv w (dotenv w) env = (Inr (), env') \<and>
          (twitch a \<or> wikimedia a) \<and> spawn_requested a w = (Inr (), procs, evs1) \<longrightarrow>
            main argv w env =
              (fst (wait_all procs 0), env', evs1 @ map (\<lambda>p. Wait (pid p) None) procs))"
proof -
  from wait_all_codes [OF assms, of 0]
  have run: "wait_all procs 0 = (Inr (first_nonzero codes), map (\<lambda>p. Wait (pid p) None) procs)"
    by simp
  show ?thesis
  proof (intro conjI impI allI)
    assume "\<forall>rc\<in>set codes. rc = 0"
    then show "wait_all procs 0 = (Inr 0, map (\<lambda>p. Wait (pid p) None) procs)"
      using run by (simp add: first_nonzero_zeros)
  next
    fix zs rc rest
    assume "codes = zs @ rc # rest \<and> (\<forall>z\<in>set zs. z = 0) \<and> rc \<noteq> 0"
    then show "wait_all procs 0 = (Inr rc, map (\<lambda>p. Wait (pid p) None) procs)"
      using run by (simp add: first_nonzero_first)
  next
    assume "parse_args argv = (Inr a, evs0) \<and> load_dotenv w (dotenv w) env = (Inr (), env') \<and>
      (twitch a \<or> wikimedia a) \<and> spawn_requested a w = (Inr (), procs, evs1)"
    then show "main argv w env =
        (fst (wait_all procs 0), env', evs1 @ map (\<lambda>p. Wait (pid p) None) procs)"
      using main_supervises [of argv a evs0 w env env' procs evs1] run by simp
  qed
qed

theorem main_aggregate_exit_code_witness:
  "main [Opt_Twitch, Opt_Wikimedia]
     (posix_world (present (quiet_child 101 (Inr 0))) (present (quiet_child 202 (Inr 5))))
     Map.empty =
   (Inr 5, Map.empty,
    [Popen Twitch_py True, Popen Avicbotirc_py True, Wait 101 None, Wait 202 None])"
proof -
  let ?t = "quiet_child 101 (Inr 0)" and ?i = "quiet_child 202 (Inr 5)"
  let ?w = "posix_world (present ?t) (present ?i)"
  let ?a = "\<lparr>twitch = True, wikimedia = True\<rparr>"
  have codes: "map wait_result [?t, ?i] = map Inr [0, 5]"
    by (simp add: quiet_child_def)
  have parse: "parse_args [Opt_Twitch, Opt_Wikimedia] = (Inr ?a, [])"
    by (simp add: parse_args_def)
  have load: "load_dotenv ?w (dotenv ?w) Map.empty = (Inr (), Map.empty)"
    by (simp add: load_dotenv_def posix_world_def)
  have spawned: "spawn_requested ?a ?w =
      (Inr (), [?t, ?i], [Popen Twitch_py True, Popen Avicbotirc_py True])"
    by (simp add: spawn_requested_def append_spawn_def spawn_def posix_world_def present_def)
  from main_aggregate_exit_code [OF codes, of "[Opt_Twitch, Opt_Wikimedia]" ?a "[]" ?w Map.empty Map.empty
      "[Popen Twitch_py True, Popen Avicbotirc_py True]"]
  have second: "wait_all [?t, ?i] 0 = (Inr 5, map (\<lambda>p. Wait (pid p) None) [?t, ?i])"
    and run: "main [Opt_Twitch, Opt_Wikimedia] ?w Map.empty =
      (fst (wait_all [?t, ?i] 0), Map.empty,
       [Popen Twitch_py True, Popen Avicbotirc_py True] @ map (\<lambda>p. Wait (pid p) None) [?t, ?i])"
    using parse load spawned by (auto dest: spec [of _ "[0]"])
  then show ?thesis
    by (simp add: quiet_child_def)
qed

text \<open>
  Claim C2, as stated, fails for the reason claim C8 does: an interrupt received while
  the supervisor waits for its children takes it to the interrupt path, and a second
  interrupt received there, here during the 5 seconds given to the first child, is not
  caught. The run raises \<open>KeyboardInterrupt\<close> and returns no exit code.
\<close>

theorem main_second_interrupt_counterexample:
  "fst (main [Opt_Twitch, Opt_Wikimedia]
     (posix_world
        (present ((quiet_child 101 (Inl KeyboardInterrupt))
                    \<lparr>wait_timeout_result := Inl KeyboardInterrupt\<rparr>))
        (present (quiet_child 202 (Inr 0))))
     Map.empty) = Inl KeyboardInterrupt"
  by (simp add: run_eval)

text \<open>
  Claim C2, amended. For every run that has spawned its children, if
  \<open>KeyboardInterrupt\<close> is raised while the supervisor waits for one of them, after any
  exit codes of the children before it, and no call of the interrupt path is
  interrupted in turn, then the supervisor calls \<open>_terminate\<close> on every child (each
  one is polled), waits for or kills every child, and returns 130 whatever the codes
  received before.
\<close>

theorem main_interrupt_returns_130:
  assumes parse: "parse_args argv = (Inr a, evs0)"
    and load: "load_dotenv w (dotenv w) env = (Inr (), env')"
    and spawned: "spawn_requested a w = (Inr (), procs, evs1)"
    and waiting: "procs = pre @ p # post" "map wait_result pre = map Inr codes"
      "wait_result p = Inl KeyboardInterrupt"
    and draining: "\<forall>q\<in>set procs. ordinary_child q"
  shows "main argv w env =
           (Inr 130, env',
            evs1 @ map (\<lambda>q. Wait (pid q) None) pre @ [Wait (pid p) None] @
            concat (map (\<lambda>q. snd (terminate (os_nt w) q)) procs) @
            concat (map (\<lambda>q. snd (wait_or_kill (os_nt w) q)) procs)) \<and>
         (\<forall>q\<in>set procs. Poll (pid q) \<in> set (snd (terminate (os_nt w) q)))"
proof -
  from waiting(1) have "procs \<noteq> []" by simp
  with spawned have requested: "twitch a \<or> wikimedia a"
    by (rule spawn_requested_nonempty)
  have "wait_all procs 0 =
      (Inl KeyboardInterrupt, map (\<lambda>q. Wait (pid q) None) pre @ [Wait (pid p) None])"
    unfolding waiting(1) using waiting(2,3) by (rule wait_all_raises)
  moreover note on_interrupt_ordinary [OF draining, of "os_nt w"]
  ultimately have "main argv w env =
           (Inr 130, env',
            evs1 @ map (\<lambda>q. Wait (pid q) None) pre @ [Wait (pid p) None] @
            concat (map (\<lambda>q. snd (terminate (os_nt w) q)) procs) @
            concat (map (\<lambda>q. snd (wait_or_kill (os_nt w) q)) procs))"
    using main_supervises [OF parse load requested spawned] by simp
  moreover have "\<forall>q\<in>set procs. Poll (pid q) \<in> set (snd (terminate (os_nt w) q))"
    using draining terminate_ordinary(2) by blast
  ultimately show ?thesis by blast
qed

theorem main_interrupt_returns_130_witness:
  "main [Opt_Twitch, Opt_Wikimedia]
     (posix_world (present (quiet_child 101 (Inr 7)))
                  (present (quiet_child 202 (Inl KeyboardInterrupt))))
     Map.empty =
   (Inr 130, Map.empty,
    [Popen Twitch_py True, Popen Avicbotirc_py True, Wait 101 None, Wait 202 None,
     Poll 101, Killpg 101 SIGTERM, Poll 202, Killpg 202 SIGTERM,
     Wait 101 (Some 5), Wait 202 (Some 5)])"
proof -
  let ?t = "quiet_child 101 (Inr 7)" and ?i = "quiet_child 202 (Inl KeyboardInterrupt)"
  let ?w = "posix_world (present ?t) (present ?i)"
  let ?a = "\<lparr>twitch = True, wikimedia = True\<rparr>"
  have parse: "parse_args [Opt_Twitch, Opt_Wikimedia] = (Inr ?a, [])"
    by (simp add: parse_args_def)
  have load: "load_dotenv ?w (dotenv ?w) Map.empty = (Inr (), Map.empty)"
    by (simp add: load_dotenv_def posix_world_def)
  have spawned: "spawn_requested ?a ?w =
      (Inr (), [?t, ?i], [Popen Twitch_py True, Popen Avicbotirc_py True])"
    by (simp add: spawn_requested_def append_spawn_def spawn_def posix_world_def present_def)
  have split: "[?t, ?i] = [?t] @ ?i # []"
    by simp
  have codes: "map wait_result [?t] = map Inr [7]"
    by (simp add: quiet_child_def)
  have interrupted: "wait_result ?i = Inl KeyboardInterrupt"
    by (simp add: quiet_child_def)
  have draining: "\<forall>q\<in>set [?t, ?i]. ordinary_child q"
    by (simp add: ordinary_child_def ordinary_def quiet_child_def)
  from main_interrupt_returns_130 [OF parse load spawned split codes interrupted draining]
  show ?thesis
    by (simp add: terminate_def wait_or_kill_def quiet_child_def posix_world_def)
qed

text \<open>
  Claim C4. \<open>_spawn\<close> on a script that does not exist raises \<open>FileNotFoundError\<close>
  and starts nothing. When a requested script does not exist, and the run gets to it
  (the script before it, if requested and present, has started), the run raises
  \<open>FileNotFoundError\<close>: it never waits, and the child already started, if any, is
  neither signalled nor waited for. The only event of the run is the start of that
  child.
\<close>

theorem main_missing_script_is_fatal:
  assumes parse: "parse_args argv = (Inr a, evs0)"
    and load: "load_dotenv w (dotenv w) env = (Inr (), env')"
    and missing: "twitch a \<and> \<not> script_exists (twitch_py w) \<or>
                  wikimedia a \<and> \<not> script_exists (avicbotirc_py w) \<and>
                  (twitch a \<and> script_exists (twitch_py w) \<longrightarrow> \<not> isl (popen_result (twitch_py w)))"
  shows "(\<forall>nt name script. \<not> script_exists script \<longrightarrow>
            spawn nt name script = (Inl FileNotFoundError, [])) \<and>
         main argv w env =
           (Inl FileNotFoundError, env',
            if twitch a \<and> script_exists (twitch_py w)
            then [Popen Twitch_py (\<not> os_nt w)] else [])"
proof -
  from missing have requested: "twitch a \<or> wikimedia a" by blast
  have "\<exists>procs. spawn_requested a w =
      (Inl FileNotFoundError, procs,
       if twitch a \<and> script_exists (twitch_py w) then [Popen Twitch_py (\<not> os_nt w)] else [])"
  proof (cases "twitch a")
    case False
    with missing show ?thesis
      by (simp add: spawn_requested_def append_spawn_def spawn_def)
  next
    case True
    show ?thesis
    proof (cases "script_exists (twitch_py w)")
      case False
      with True show ?thesis
        by (simp add: spawn_requested_def append_spawn_def spawn_def)
    next
      case exists: True
      with True missing obtain p where p: "popen_result (twitch_py w) = Inr p"
        and irc: "wikimedia a" "\<not> script_exists (avicbotirc_py w)"
        by (cases "popen_result (twitch_py w)") auto
      with True exists show ?thesis
        by (simp add: spawn_requested_def append_spawn_def spawn_def)
    qed
  qed
  then obtain procs where "spawn_requested a w =
      (Inl FileNotFoundError, procs,
       if twitch a \<and> script_exists (twitch_py w) then [Popen Twitch_py (\<not> os_nt w)] else [])"
    ..
  from main_spawn_fails [OF parse load requested this]
  show ?thesis by (simp add: spawn_def)
qed

theorem main_missing_script_is_fatal_witness:
  "main [Opt_Twitch, Opt_Wikimedia]
     (posix_world (present (quiet_child 101 (Inr 0))) absent) Map.empty =
   (Inl FileNotFoundError, Map.empty, [Popen Twitch_py True])"
proof -
  let ?w = "posix_world (present (quiet_child 101 (Inr 0))) absent"
  let ?a = "\<lparr>twitch = True, wikimedia = True\<rparr>"
  have parse: "parse_args [Opt_Twitch, Opt_Wikimedia] = (Inr ?a, [])"
    by (simp add: parse_args_def)
  have load: "load_dotenv ?w (dotenv ?w) Map.empty = (Inr (), Map.empty)"
    by (simp add: load_dotenv_def posix_world_def)
  have missing: "twitch ?a \<and> \<not> script_exists (twitch_py ?w) \<or>
      wikimedia ?a \<and> \<not> script_exists (avicbotirc_py ?w) \<and>
      (twitch ?a \<and> script_exists (twitch_py ?w) \<longrightarrow> \<not> isl (popen_result (twitch_py ?w)))"
    by (simp add: posix_world_def present_def absent_def)
  from main_missing_script_is_fatal [OF parse load missing]
  show ?thesis
    by (simp add: posix_world_def present_def)
qed

text \<open>
  Claim C5, as stated, fails: \<open>--version\<close> alone is an invocation without a child
  flag, and it prints the version and exits with status 0 from \<open>parse_args\<close>, before
  the usage check.
\<close>

theorem main_version_flag_counterexample:
  "main [Opt_version] (posix_world absent absent) Map.empty =
     (Inl (SystemExit 0), Map.empty, [Print_version])"
  by (simp add: run_eval)

text \<open>
  Claim C5, amended. For every invocation with no child flag, and neither \<open>--version\<close>
  nor \<open>--help\<close>, in which the loader returns: the supervisor prints the help to the
  standard error, returns 2, and spawns no child (the help is the only event).
\<close>

theorem main_no_child_flag_usage:
  assumes "Opt_Twitch \<notin> set argv" "Opt_twitch \<notin> set argv"
    and "Opt_Wikimedia \<notin> set argv" "Opt_wikimedia \<notin> set argv"
    and "Opt_version \<notin> set argv" "Opt_help \<notin> set argv"
    and "load_dotenv w (dotenv w) env = (Inr (), env')"
  shows "main argv w env = (Inr 2, env', [Print_help Stderr])"
  using assms by (simp add: main_def parse_args_returns)

theorem main_no_child_flag_usage_witness:
  "main [] (posix_world (present (quiet_child 101 (Inr 0))) absent) Map.empty =
     (Inr 2, Map.empty, [Print_help Stderr])"
proof -
  let ?w = "posix_world (present (quiet_child 101 (Inr 0))) absent"
  have load: "load_dotenv ?w (dotenv ?w) Map.empty = (Inr (), Map.empty)"
    by (simp add: load_dotenv_def posix_world_def)
  show ?thesis
    by (rule main_no_child_flag_usage [OF _ _ _ _ _ _ load]) simp_all
qed

text \<open>
  Claim C9, as stated, fails: the flags are stored as booleans, so the order of the
  command line is lost, and the supervisor starts and waits for the Twitch bot first.
  Here the Wikimedia flag comes first, and the first wait is still for the child of
  \<open>twitch.py\<close>, process 101.
\<close>

theorem main_wait_order_counterexample:
  "snd (snd (main [Opt_Wikimedia, Opt_Twitch]
     (posix_world (present (quiet_child 101 (Inr 0))) (present (quiet_child 202 (Inr 0))))
     Map.empty)) =
   [Popen Twitch_py True, Popen Avicbotirc_py True, Wait 101 None, Wait 202 None]"
  by (simp add: run_eval)

text \<open>
  Claim C9, amended. When both children are requested, in any order and any spelling
  of the flags, and both start and exit, the supervisor waits for the child of
  \<open>twitch.py\<close> first and for the child of \<open>avicbotirc.py\<close> second.
\<close>

theorem main_waits_twitch_first:
  assumes flags: "Opt_Twitch \<in> set argv \<or> Opt_twitch \<in> set argv"
      "Opt_Wikimedia \<in> set argv \<or> Opt_wikimedia \<in> set argv"
    and no_exit: "Opt_version \<notin> set argv" "Opt_help \<notin> set argv"
    and load: "load_dotenv w (dotenv w) env = (Inr (), env')"
    and scripts: "script_exists (twitch_py w)" "script_exists (avicbotirc_py w)"
    and children: "popen_result (twitch_py w) = Inr pt" "popen_result (avicbotirc_py w) = Inr pw"
    and codes: "wait_result pt = Inr rc1" "wait_result pw = Inr rc2"
  shows "main argv w env =
           (Inr (if rc1 \<noteq> 0 then rc1 else rc2), env',
            [Popen Twitch_py (\<not> os_nt w), Popen Avicbotirc_py (\<not> os_nt w),
             Wait (pid pt) None, Wait (pid pw) None])"
  using assms
  by (simp add: main_def parse_args_returns try_block_def spawn_requested_def append_spawn_def
      spawn_def emit_def)

theorem main_waits_twitch_first_witness:
  "main [Opt_wikimedia, Opt_Twitch]
     (posix_world (present (quiet_child 101 (Inr 0))) (present (quiet_child 202 (Inr 3))))
     Map.empty =
   (Inr 3, Map.empty,
    [Popen Twitch_py True, Popen Avicbotirc_py True, Wait 101 None, Wait 202 None])"
proof -
  let ?t = "quiet_child 101 (Inr 0)" and ?i = "quiet_child 202 (Inr 3)"
  let ?w = "posix_world (present ?t) (present ?i)"
  have load: "load_dotenv ?w (dotenv ?w) Map.empty = (Inr (), Map.empty)"
    by (simp add: load_dotenv_def posix_world_def)
  have "main [Opt_wikimedia, Opt_Twitch] ?w Map.empty =
           (Inr (if (0::int) \<noteq> 0 then 0 else 3), Map.empty,
            [Popen Twitch_py (\<not> os_nt ?w), Popen Avicbotirc_py (\<not> os_nt ?w),
             Wait (pid ?t) None, Wait (pid ?i) None])"
    by (rule main_waits_twitch_first [OF _ _ _ _ load])
       (simp_all add: posix_world_def present_def quiet_child_def)
  then show ?thesis
    by (simp add: posix_world_def quiet_child_def)
qed

end
